theory Spec2Isabelle
  imports Complex_Main "HOL-Library.Multiset"
begin

section \<open>Errors of the Python runtime and of the specification's taxonomy\<close>

text \<open>
  Exceptions are values.  \<open>ValueError\<close>, \<open>IndexError\<close>, \<open>AttributeError\<close>,
  \<open>ZeroDivisionError\<close> and \<open>LinAlgError\<close> are raised by Python and numpy themselves;
  \<open>CalibrationError\<close>, \<open>DegenerateProjectionError\<close> and \<open>DecompositionError\<close> are the
  names of the specification's error taxonomy.  \<open>CvError\<close> carries a failure of an OpenCV
  routine.
\<close>

datatype py_error =
    ValueError
  | IndexError
  | AttributeError
  | ZeroDivisionError
  | LinAlgError
  | CvError
  | CalibrationError
  | DegenerateProjectionError
  | DecompositionError

section \<open>Bounding-box overlap (\<open>vicreg_dataset.py\<close>, \<open>does_overlap\<close>)\<close>

text \<open>
  A bounding box is the Python list \<open>[xmin, ymin, xmax, ymax]\<close>; the caller builds both
  boxes from \<open>int\<close> values.  The two tuple assignments of the source unpack exactly four
  elements and raise \<open>ValueError\<close> on a list of any other length.
\<close>

fun unpack4 :: "int list \<Rightarrow> py_error + (int \<times> int \<times> int \<times> int)" where
  "unpack4 [a, b, c, d] = Inr (a, b, c, d)"
| "unpack4 _ = Inl ValueError"

definition does_overlap :: "int list \<Rightarrow> int list \<Rightarrow> py_error + bool" where
  "does_overlap cur_bbox past_bbox =
     (case unpack4 cur_bbox of
        Inl e \<Rightarrow> Inl e
      | Inr (x_min_cur, y_min_cur, x_max_cur, y_max_cur) \<Rightarrow>
          (case unpack4 past_bbox of
             Inl e \<Rightarrow> Inl e
           | Inr (x_min_past, y_min_past, x_max_past, y_max_past) \<Rightarrow>
               Inr (\<not> (x_max_cur < x_min_past \<or> x_max_past < x_min_cur \<or>
                        y_max_cur < y_min_past \<or> y_max_past < y_min_cur))))"

section \<open>Vectors and matrices\<close>

text \<open>
  numpy arrays of fixed shape are tuples, a matrix being the tuple of its rows.  Entries
  are real numbers: the arithmetic is exact, rounding of the float32 and float64 entries
  of the source is not modelled.
\<close>

type_synonym vec3 = "real \<times> real \<times> real"
type_synonym mat3 = "vec3 \<times> vec3 \<times> vec3"
type_synonym vec4 = "real \<times> real \<times> real \<times> real"
type_synonym mat4 = "vec4 \<times> vec4 \<times> vec4 \<times> vec4"

definition vadd :: "vec3 \<Rightarrow> vec3 \<Rightarrow> vec3" where
  "vadd u v = (case u of (a, b, c) \<Rightarrow> case v of (x, y, z) \<Rightarrow> (a + x, b + y, c + z))"

definition vsub :: "vec3 \<Rightarrow> vec3 \<Rightarrow> vec3" where
  "vsub u v = (case u of (a, b, c) \<Rightarrow> case v of (x, y, z) \<Rightarrow> (a - x, b - y, c - z))"

definition smult :: "real \<Rightarrow> vec3 \<Rightarrow> vec3" where
  "smult k v = (case v of (x, y, z) \<Rightarrow> (k * x, k * y, k * z))"

definition dot :: "vec3 \<Rightarrow> vec3 \<Rightarrow> real" where
  "dot u v = (case u of (a, b, c) \<Rightarrow> case v of (x, y, z) \<Rightarrow> a * x + b * y + c * z)"

definition cross :: "vec3 \<Rightarrow> vec3 \<Rightarrow> vec3" where
  "cross u v =
     (case u of (a, b, c) \<Rightarrow> case v of (x, y, z) \<Rightarrow>
        (b * z - c * y, c * x - a * z, a * y - b * x))"

definition norm3 :: "vec3 \<Rightarrow> real" where
  "norm3 v = sqrt (dot v v)"

definition eye3 :: mat3 where
  "eye3 = ((1, 0, 0), (0, 1, 0), (0, 0, 1))"

definition transpose3 :: "mat3 \<Rightarrow> mat3" where
  "transpose3 m =
     (case m of ((a, b, c), (d, e, f), (g, h, i)) \<Rightarrow> ((a, d, g), (b, e, h), (c, f, i)))"

definition mat_vec :: "mat3 \<Rightarrow> vec3 \<Rightarrow> vec3" where
  "mat_vec m v = (case m of (r1, r2, r3) \<Rightarrow> (dot r1 v, dot r2 v, dot r3 v))"

definition mat_mul :: "mat3 \<Rightarrow> mat3 \<Rightarrow> mat3" where
  "mat_mul a b =
     (case a of (r1, r2, r3) \<Rightarrow> case transpose3 b of (c1, c2, c3) \<Rightarrow>
        ((dot r1 c1, dot r1 c2, dot r1 c3),
         (dot r2 c1, dot r2 c2, dot r2 c3),
         (dot r3 c1, dot r3 c2, dot r3 c3)))"

definition mat_sub :: "mat3 \<Rightarrow> mat3 \<Rightarrow> mat3" where
  "mat_sub a b =
     (case a of (r1, r2, r3) \<Rightarrow> case b of (s1, s2, s3) \<Rightarrow>
        (vsub r1 s1, vsub r2 s2, vsub r3 s3))"

definition mat_scale :: "real \<Rightarrow> mat3 \<Rightarrow> mat3" where
  "mat_scale k m = (case m of (r1, r2, r3) \<Rightarrow> (smult k r1, smult k r2, smult k r3))"

definition outer :: "vec3 \<Rightarrow> vec3 \<Rightarrow> mat3" where
  "outer t n = (case t of (a, b, c) \<Rightarrow> (smult a n, smult b n, smult c n))"

definition det3 :: "mat3 \<Rightarrow> real" where
  "det3 m = (case m of (r1, r2, r3) \<Rightarrow> dot (cross r1 r2) r3)"

definition adjugate3 :: "mat3 \<Rightarrow> mat3" where
  "adjugate3 m =
     (case m of (r1, r2, r3) \<Rightarrow> transpose3 (cross r2 r3, cross r3 r1, cross r1 r2))"

text \<open>
  \<open>np.linalg.inv\<close>: the inverse, \<open>LinAlgError\<close> on a singular matrix.
\<close>

definition inv3 :: "mat3 \<Rightarrow> py_error + mat3" where
  "inv3 m = (if det3 m = 0 then Inl LinAlgError
             else Inr (mat_scale (1 / det3 m) (adjugate3 m)))"

text \<open>
  A pose is a \<open>4 \<times> 4\<close> array; \<open>rt[:3, :3]\<close> and \<open>rt[:3, 3]\<close> are its rotation block and
  its translation column.
\<close>

definition rot_block :: "mat4 \<Rightarrow> mat3" where
  "rot_block rt =
     (case rt of ((a, b, c, _), (d, e, f, _), (g, h, i, _), _) \<Rightarrow>
        ((a, b, c), (d, e, f), (g, h, i)))"

definition trans_col :: "mat4 \<Rightarrow> vec3" where
  "trans_col rt = (case rt of ((_, _, _, x), (_, _, _, y), (_, _, _, z), _) \<Rightarrow> (x, y, z))"

definition bottom_row :: "mat4 \<Rightarrow> vec4" where
  "bottom_row rt = (case rt of (_, _, _, r4) \<Rightarrow> r4)"

definition set_trans_col :: "mat4 \<Rightarrow> vec3 \<Rightarrow> mat4" where
  "set_trans_col rt t =
     (case rt of ((a, b, c, _), (d, e, f, _), (g, h, i, _), r4) \<Rightarrow>
        case t of (x, y, z) \<Rightarrow> ((a, b, c, x), (d, e, f, y), (g, h, i, z), r4))"

definition eye4 :: mat4 where
  "eye4 = ((1, 0, 0, 0), (0, 1, 0, 0), (0, 0, 1, 0), (0, 0, 0, 1))"

section \<open>Homography of a relative motion (\<open>vicreg_dataset.py\<close>, lines 26--29 and 50--58)\<close>

text \<open>
  Modelled from the spec: \<open>compute_homography_from_rt\<close> of \<open>homography_utils.py\<close>, a file
  of the repository that is not among the sources.  The specification gives it as
  \<open>H = K \<cdot> (R_rel - (T_rel \<cdot> normal\<^sup>T) / distance) \<cdot> K\<^sup>-\<^sup>1\<close>, failing with
  \<open>DecompositionError\<close> if the distance is zero; the inversion of \<open>K\<close> is
  \<open>np.linalg.inv\<close>.
\<close>

definition compute_homography_from_rt ::
    "mat3 \<Rightarrow> mat3 \<Rightarrow> vec3 \<Rightarrow> vec3 \<Rightarrow> real \<Rightarrow> py_error + mat3" where
  "compute_homography_from_rt K R_rel T_rel plane_normal plane_distance =
     (if plane_distance = 0 then Inl DecompositionError
      else case inv3 K of
        Inl e \<Rightarrow> Inl e
      | Inr K_inv \<Rightarrow>
          Inr (mat_mul
                 (mat_mul K
                    (mat_sub R_rel (mat_scale (1 / plane_distance) (outer T_rel plane_normal))))
                 K_inv))"

text \<open>The static offset from the odometry frame to the camera frame (line 27).\<close>

definition camera_offset :: vec3 where
  "camera_offset = (0.2286, 0, 0.5715)"

text \<open>
  \<open>T += camera_offset\<close> on the view \<open>rt[:3, 3]\<close> (lines 29 and 51): an in-place addition,
  which writes through the view into the pose matrix \<open>rt\<close> itself.
\<close>

definition add_camera_offset :: "mat4 \<Rightarrow> mat4" where
  "add_camera_offset rt = set_trans_col rt (vadd (trans_col rt) camera_offset)"

text \<open>
  Lines 53--58, on the two pose matrices as they are after the offset was added: the
  homography from the past frame to the current one, and its composition with the
  calibrated homography \<open>H\<close>.
\<close>

definition past_homographies ::
    "mat3 \<Rightarrow> mat3 \<Rightarrow> vec3 \<Rightarrow> real \<Rightarrow> mat4 \<Rightarrow> mat4 \<Rightarrow> py_error + (mat3 \<times> mat3)" where
  "past_homographies H K plane_normal plane_distance cur_rt past_rt =
     (let R_cur = rot_block cur_rt; T_cur = trans_col cur_rt;
          R_past = rot_block past_rt; T_past = trans_col past_rt;
          R_rel = mat_mul (transpose3 R_cur) R_past;
          T_rel = mat_vec (transpose3 R_cur) (vsub T_past T_cur)
      in case compute_homography_from_rt K R_rel T_rel plane_normal plane_distance of
           Inl e \<Rightarrow> Inl e
         | Inr H_past2cur \<Rightarrow> Inr (H_past2cur, mat_mul H H_past2cur))"


section \<open>The temporal patch sampler (\<open>vicreg_dataset.py\<close>, \<open>ComputeVicRegData\<close>)\<close>

text \<open>
  The OpenCV routines the sampler calls are collaborators, taken as parameters.
  \<open>perspectiveTransform\<close> maps every point of its input array, so it is taken pointwise;
  \<open>shape\<close> is the \<open>shape\<close> attribute of an image array.
\<close>

record 'img cv2 =
  warpPerspective :: "'img \<Rightarrow> mat3 \<Rightarrow> nat \<times> nat \<Rightarrow> 'img"
  resize :: "'img \<Rightarrow> nat \<times> nat \<Rightarrow> 'img"
  shape :: "'img \<Rightarrow> nat list"
  perspectiveTransform :: "mat3 \<Rightarrow> real \<times> real \<Rightarrow> real \<times> real"

text \<open>
  Modelled from the spec: the robot data source (\<open>robot_data_at_timestep.py\<close> is not among
  the sources), "a read-only indexed sequence" with \<open>timestepCount\<close>, \<open>imageAt(t)\<close> and
  \<open>poseAt(t)\<close>: the list of the timesteps, each with its image and its \<open>4 \<times> 4\<close> pose.
  \<open>getOdomAtTimestep(t)\<close> hands out the pose matrix of timestep \<open>t\<close>, and the views
  \<open>rt[:3, :3]\<close> and \<open>rt[:3, 3]\<close> the sampler takes of it alias that matrix.  Every index the
  loops below pass is smaller than \<open>getNTimesteps\<close>.  A data source that hands out a new
  array at every call is covered by the embedding over a store of pose arrays further
  down, which takes the data source as a parameter.
\<close>

type_synonym 'img robot_data = "('img \<times> mat4) list"

definition getNTimesteps :: "'img robot_data \<Rightarrow> nat" where
  "getNTimesteps robot_data = length robot_data"

definition getImageAtTimestep :: "'img robot_data \<Rightarrow> nat \<Rightarrow> 'img" where
  "getImageAtTimestep robot_data t = fst (robot_data ! t)"

definition getOdomAtTimestep :: "'img robot_data \<Rightarrow> nat \<Rightarrow> mat4" where
  "getOdomAtTimestep robot_data t = snd (robot_data ! t)"

text \<open>
  Lines 26--29 and 50--51: \<open>T = rt[:3, 3]\<close> followed by \<open>T += camera_offset\<close>, on the pose
  matrix of timestep \<open>t\<close>.
\<close>

definition offset_pose_in_place :: "nat \<Rightarrow> 'img robot_data \<Rightarrow> 'img robot_data" where
  "offset_pose_in_place t robot_data =
     robot_data[t := (getImageAtTimestep robot_data t,
                      add_camera_offset (getOdomAtTimestep robot_data t))]"

text \<open>\<open>int(x)\<close> on a float: truncation towards zero.\<close>

definition py_int :: "real \<Rightarrow> int" where
  "py_int x = (if 0 \<le> x then \<lfloor>x\<rfloor> else \<lceil>x\<rceil>)"

text \<open>Lines 32--34 and 78--80: the warp, resized when its shape is not \<open>patch_size\<close>.\<close>

definition warp_patch :: "'img cv2 \<Rightarrow> 'img \<Rightarrow> mat3 \<Rightarrow> nat \<times> nat \<Rightarrow> 'img" where
  "warp_patch cv src_image Hm patch_size =
     (let patch = warpPerspective cv src_image Hm patch_size
      in if shape cv patch \<noteq> [fst patch_size, snd patch_size]
         then resize cv patch patch_size else patch)"

definition cur_bbox :: "nat \<times> nat \<Rightarrow> int list" where
  "cur_bbox patch_size = [0, 0, int (fst patch_size), int (snd patch_size)]"

text \<open>Lines 61--73: the bounding box of the transformed corners of the past patch.\<close>

definition past_bbox :: "'img cv2 \<Rightarrow> mat3 \<Rightarrow> nat \<times> nat \<Rightarrow> int list" where
  "past_bbox cv H_past2cur patch_size =
     (let past_bbox_corners =
            [(0, 0), (real (fst patch_size), 0),
             (real (fst patch_size), real (snd patch_size)), (0, real (snd patch_size))];
          transformed_corners = map (perspectiveTransform cv H_past2cur) past_bbox_corners;
          x_min = py_int (Min (set (map fst transformed_corners)));
          y_min = py_int (Min (set (map snd transformed_corners)));
          x_max = py_int (Max (set (map fst transformed_corners)));
          y_max = py_int (Max (set (map snd transformed_corners)))
      in [x_min, y_min, x_max, y_max])"

text \<open>
  Lines 53--81, for one history offset: the patch of the past frame if its bounding box
  overlaps the current one, \<open>None\<close> if it does not.
\<close>

definition past_patch ::
    "'img cv2 \<Rightarrow> mat3 \<Rightarrow> mat3 \<Rightarrow> vec3 \<Rightarrow> real \<Rightarrow> nat \<times> nat \<Rightarrow> 'img \<Rightarrow> mat4 \<Rightarrow> mat4
       \<Rightarrow> py_error + 'img option" where
  "past_patch cv H K plane_normal plane_distance patch_size past_image cur_rt past_rt =
     (case past_homographies H K plane_normal plane_distance cur_rt past_rt of
        Inl e \<Rightarrow> Inl e
      | Inr (H_past2cur, H_past2patch) \<Rightarrow>
          (case does_overlap (cur_bbox patch_size) (past_bbox cv H_past2cur patch_size) of
             Inl e \<Rightarrow> Inl e
           | Inr overlapping \<Rightarrow>
               Inr (if overlapping
                    then Some (warp_patch cv past_image H_past2patch patch_size)
                    else None)))"

text \<open>
  The loop of lines 42--81 over the history offsets.  The state is the robot data and the
  list \<open>timestep_patches\<close>; an exception ends the loop and leaves the robot data as it
  is at that moment.
\<close>

fun past_loop ::
    "'img cv2 \<Rightarrow> mat3 \<Rightarrow> mat3 \<Rightarrow> vec3 \<Rightarrow> real \<Rightarrow> nat \<times> nat \<Rightarrow> nat \<Rightarrow> nat list
       \<Rightarrow> 'img robot_data \<Rightarrow> 'img list \<Rightarrow> (py_error + 'img list) \<times> 'img robot_data" where
  "past_loop cv H K plane_normal plane_distance patch_size timestep [] robot_data
       timestep_patches = (Inr timestep_patches, robot_data)"
| "past_loop cv H K plane_normal plane_distance patch_size timestep (past_hist # rest)
       robot_data timestep_patches =
     (if int timestep - int past_hist < 0
      then past_loop cv H K plane_normal plane_distance patch_size timestep rest
             robot_data timestep_patches
      else
        let past_timestep = timestep - past_hist;
            past_image = getImageAtTimestep robot_data past_timestep;
            robot_data' = offset_pose_in_place past_timestep robot_data
        in case past_patch cv H K plane_normal plane_distance patch_size past_image
                  (getOdomAtTimestep robot_data' timestep)
                  (getOdomAtTimestep robot_data' past_timestep) of
             Inl e \<Rightarrow> (Inl e, robot_data')
           | Inr None \<Rightarrow>
               past_loop cv H K plane_normal plane_distance patch_size timestep rest
                 robot_data' timestep_patches
           | Inr (Some patch) \<Rightarrow>
               past_loop cv H K plane_normal plane_distance patch_size timestep rest
                 robot_data' (timestep_patches @ [patch]))"

text \<open>Lines 21--83: the body of the loop over the timesteps.\<close>

definition process_timestep ::
    "'img cv2 \<Rightarrow> mat3 \<Rightarrow> mat3 \<Rightarrow> vec3 \<Rightarrow> real \<Rightarrow> nat \<Rightarrow> nat \<times> nat \<Rightarrow> nat
       \<Rightarrow> 'img robot_data \<Rightarrow> (py_error + 'img list) \<times> 'img robot_data" where
  "process_timestep cv H K plane_normal plane_distance history_size patch_size timestep
       robot_data =
     (let cur_image = getImageAtTimestep robot_data timestep;
          robot_data' = offset_pose_in_place timestep robot_data;
          cur_patch = warp_patch cv cur_image H patch_size
      in past_loop cv H K plane_normal plane_distance patch_size timestep
           [1..<history_size] robot_data' [cur_patch])"

fun timestep_loop ::
    "'img cv2 \<Rightarrow> mat3 \<Rightarrow> mat3 \<Rightarrow> vec3 \<Rightarrow> real \<Rightarrow> nat \<Rightarrow> nat \<times> nat \<Rightarrow> nat list
       \<Rightarrow> 'img robot_data \<Rightarrow> 'img list list
       \<Rightarrow> (py_error + 'img list list) \<times> 'img robot_data" where
  "timestep_loop cv H K plane_normal plane_distance history_size patch_size [] robot_data
       patches = (Inr patches, robot_data)"
| "timestep_loop cv H K plane_normal plane_distance history_size patch_size
       (timestep # rest) robot_data patches =
     (case process_timestep cv H K plane_normal plane_distance history_size patch_size
             timestep robot_data of
        (Inl e, robot_data') \<Rightarrow> (Inl e, robot_data')
      | (Inr timestep_patches, robot_data') \<Rightarrow>
          timestep_loop cv H K plane_normal plane_distance history_size patch_size rest
            robot_data' (patches @ [timestep_patches]))"

text \<open>
  The sampler returns the patch lists, or raises; either way the robot data is left in
  the state the second component gives.
\<close>

definition ComputeVicRegData ::
    "'img cv2 \<Rightarrow> mat3 \<Rightarrow> mat3 \<Rightarrow> vec3 \<Rightarrow> real \<Rightarrow> 'img robot_data \<Rightarrow> nat \<Rightarrow> nat \<times> nat
       \<Rightarrow> (py_error + 'img list list) \<times> 'img robot_data" where
  "ComputeVicRegData cv H K plane_normal plane_distance robot_data history_size patch_size =
     (let n_timesteps = getNTimesteps robot_data
      in timestep_loop cv H K plane_normal plane_distance history_size patch_size
           [history_size..<n_timesteps] robot_data [])"

text \<open>
  Two observations of a run, for stating what the sampler does at one history offset.
  \<open>robot_data_at\<close> is the robot data at the moment the loops reach offset \<open>past_hist\<close> of
  timestep \<open>timestep\<close>; \<open>offset_excluded\<close> says that in a given state of the robot data
  the overlap test of that offset fails, so that no patch is emitted for it.
\<close>

definition robot_data_at ::
    "'img cv2 \<Rightarrow> mat3 \<Rightarrow> mat3 \<Rightarrow> vec3 \<Rightarrow> real \<Rightarrow> nat \<Rightarrow> nat \<times> nat \<Rightarrow> 'img robot_data
       \<Rightarrow> nat \<Rightarrow> nat \<Rightarrow> 'img robot_data" where
  "robot_data_at cv H K plane_normal plane_distance history_size patch_size robot_data
       timestep past_hist =
     (let at_timestep =
            snd (timestep_loop cv H K plane_normal plane_distance history_size patch_size
                   [history_size..<timestep] robot_data [])
      in snd (past_loop cv H K plane_normal plane_distance patch_size timestep
                [1..<past_hist] (offset_pose_in_place timestep at_timestep)
                [warp_patch cv (getImageAtTimestep at_timestep timestep) H patch_size]))"

definition offset_excluded ::
    "'img cv2 \<Rightarrow> mat3 \<Rightarrow> mat3 \<Rightarrow> vec3 \<Rightarrow> real \<Rightarrow> nat \<times> nat \<Rightarrow> nat \<Rightarrow> nat
       \<Rightarrow> 'img robot_data \<Rightarrow> bool" where
  "offset_excluded cv H K plane_normal plane_distance patch_size timestep past_hist
       robot_data =
     (let past_timestep = timestep - past_hist;
          robot_data' = offset_pose_in_place past_timestep robot_data
      in past_patch cv H K plane_normal plane_distance patch_size
           (getImageAtTimestep robot_data past_timestep)
           (getOdomAtTimestep robot_data' timestep)
           (getOdomAtTimestep robot_data' past_timestep) = Inr None)"

text \<open>The first entry of the translation column of a pose.\<close>

definition translation_x :: "mat4 \<Rightarrow> real" where
  "translation_x rt = fst (trans_col rt)"

text \<open>
  A stand-in for OpenCV in the closed examples: images are numbers, a warp returns its
  source image, and \<open>perspectiveTransform\<close> moves every point by \<open>dx\<close> along the x axis.
\<close>

definition shifting_cv :: "real \<Rightarrow> nat cv2" where
  "shifting_cv dx =
     \<lparr>warpPerspective = (\<lambda>img _ _. img), resize = (\<lambda>img _. img),
      shape = (\<lambda>_. [128, 128, 3]), perspectiveTransform = (\<lambda>_ p. (fst p + dx, snd p))\<rparr>"

section \<open>The sampler over a store of pose arrays\<close>

text \<open>
  Whether a write through the view \<open>rt[:3, 3]\<close> reaches the poses the data source keeps
  depends on what \<open>getOdomAtTimestep\<close> returns: the array the data source keeps, or a new
  one.  The list of the previous section is the first case.  Here the sampler is embedded
  once more with the data source as a parameter and the pose arrays in a store: an array
  is addressed by its position in the store, \<open>getOdomAtTimestep\<close> returns the address of
  an array together with the store, in which it may have allocated arrays, and an image
  is a value.
\<close>

type_synonym pose_store = "mat4 list"

record 'img data_source =
  src_getNTimesteps :: nat
  src_getImageAtTimestep :: "nat \<Rightarrow> 'img"
  src_getOdomAtTimestep :: "nat \<Rightarrow> pose_store \<Rightarrow> nat \<times> pose_store"

text \<open>
  Lines 26--29 and 50--51: \<open>T = rt[:3, 3]\<close> followed by \<open>T += camera_offset\<close>, on the pose
  array at address \<open>rt\<close>.
\<close>

definition add_offset_at :: "nat \<Rightarrow> pose_store \<Rightarrow> pose_store" where
  "add_offset_at rt store = store[rt := add_camera_offset (store ! rt)]"

text \<open>
  The loop of lines 42--81.  \<open>R_cur\<close> and \<open>T_cur\<close> are views of the array \<open>cur_rt\<close>, so
  lines 53 and 54 read that array as it is in the store at that moment.
\<close>

fun past_loop_on ::
    "'img data_source \<Rightarrow> 'img cv2 \<Rightarrow> mat3 \<Rightarrow> mat3 \<Rightarrow> vec3 \<Rightarrow> real \<Rightarrow> nat \<times> nat \<Rightarrow> nat \<Rightarrow> nat
       \<Rightarrow> nat list \<Rightarrow> pose_store \<Rightarrow> 'img list \<Rightarrow> (py_error + 'img list) \<times> pose_store" where
  "past_loop_on src cv H K plane_normal plane_distance patch_size timestep cur_rt []
       store timestep_patches = (Inr timestep_patches, store)"
| "past_loop_on src cv H K plane_normal plane_distance patch_size timestep cur_rt
       (past_hist # rest) store timestep_patches =
     (if int timestep - int past_hist < 0
      then past_loop_on src cv H K plane_normal plane_distance patch_size timestep cur_rt
             rest store timestep_patches
      else
        let past_timestep = timestep - past_hist;
            past_image = src_getImageAtTimestep src past_timestep;
            (past_rt, store1) = src_getOdomAtTimestep src past_timestep store;
            store2 = add_offset_at past_rt store1
        in case past_patch cv H K plane_normal plane_distance patch_size past_image
                  (store2 ! cur_rt) (store2 ! past_rt) of
             Inl e \<Rightarrow> (Inl e, store2)
           | Inr None \<Rightarrow>
               past_loop_on src cv H K plane_normal plane_distance patch_size timestep
                 cur_rt rest store2 timestep_patches
           | Inr (Some patch) \<Rightarrow>
               past_loop_on src cv H K plane_normal plane_distance patch_size timestep
                 cur_rt rest store2 (timestep_patches @ [patch]))"

text \<open>Lines 21--83, the body of the loop over the timesteps, and that loop.\<close>

definition process_timestep_on ::
    "'img data_source \<Rightarrow> 'img cv2 \<Rightarrow> mat3 \<Rightarrow> mat3 \<Rightarrow> vec3 \<Rightarrow> real \<Rightarrow> nat \<Rightarrow> nat \<times> nat \<Rightarrow> nat
       \<Rightarrow> pose_store \<Rightarrow> (py_error + 'img list) \<times> pose_store" where
  "process_timestep_on src cv H K plane_normal plane_distance history_size patch_size
       timestep store =
     (let cur_image = src_getImageAtTimestep src timestep;
          (cur_rt, store1) = src_getOdomAtTimestep src timestep store;
          store2 = add_offset_at cur_rt store1;
          cur_patch = warp_patch cv cur_image H patch_size
      in past_loop_on src cv H K plane_normal plane_distance patch_size timestep cur_rt
           [1..<history_size] store2 [cur_patch])"

fun timestep_loop_on ::
    "'img data_source \<Rightarrow> 'img cv2 \<Rightarrow> mat3 \<Rightarrow> mat3 \<Rightarrow> vec3 \<Rightarrow> real \<Rightarrow> nat \<Rightarrow> nat \<times> nat
       \<Rightarrow> nat list \<Rightarrow> pose_store \<Rightarrow> 'img list list
       \<Rightarrow> (py_error + 'img list list) \<times> pose_store" where
  "timestep_loop_on src cv H K plane_normal plane_distance history_size patch_size []
       store patches = (Inr patches, store)"
| "timestep_loop_on src cv H K plane_normal plane_distance history_size patch_size
       (timestep # rest) store patches =
     (case process_timestep_on src cv H K plane_normal plane_distance history_size
             patch_size timestep store of
        (Inl e, store') \<Rightarrow> (Inl e, store')
      | (Inr timestep_patches, store') \<Rightarrow>
          timestep_loop_on src cv H K plane_normal plane_distance history_size patch_size
            rest store' (patches @ [timestep_patches]))"

definition ComputeVicRegData_on ::
    "'img data_source \<Rightarrow> 'img cv2 \<Rightarrow> mat3 \<Rightarrow> mat3 \<Rightarrow> vec3 \<Rightarrow> real \<Rightarrow> nat \<Rightarrow> nat \<times> nat
       \<Rightarrow> pose_store \<Rightarrow> (py_error + 'img list list) \<times> pose_store" where
  "ComputeVicRegData_on src cv H K plane_normal plane_distance history_size patch_size
       store =
     (let n_timesteps = src_getNTimesteps src
      in timestep_loop_on src cv H K plane_normal plane_distance history_size patch_size
           [history_size..<n_timesteps] store [])"

text \<open>
  What is asked of a data source: in a store that holds at least as many arrays as there
  are timesteps, \<open>getOdomAtTimestep\<close> of a timestep returns the address of an array of
  the store it returns, and leaves every array that was in the store as it was.
\<close>

definition hands_out_arrays :: "'img data_source \<Rightarrow> bool" where
  "hands_out_arrays src =
     (\<forall>t store. t < src_getNTimesteps src \<and> src_getNTimesteps src \<le> length store \<longrightarrow>
        (case src_getOdomAtTimestep src t store of
           (rt, store') \<Rightarrow>
             rt < length store' \<and> length store \<le> length store'
             \<and> take (length store) store' = store))"

text \<open>
  Two data sources that keep the pose of timestep \<open>t\<close> at address \<open>t\<close>: the first returns
  the array it keeps, the second a new array with the same entries.
\<close>

definition stored_source :: "nat \<Rightarrow> (nat \<Rightarrow> 'img) \<Rightarrow> 'img data_source" where
  "stored_source n images =
     \<lparr>src_getNTimesteps = n, src_getImageAtTimestep = images,
      src_getOdomAtTimestep = (\<lambda>t store. (t, store))\<rparr>"

definition copying_source :: "nat \<Rightarrow> (nat \<Rightarrow> 'img) \<Rightarrow> 'img data_source" where
  "copying_source n images =
     \<lparr>src_getNTimesteps = n, src_getImageAtTimestep = images,
      src_getOdomAtTimestep = (\<lambda>t store. (length store, store @ [store ! t]))\<rparr>"

text \<open>
  The relation between two states of the store in which every array of the first is, in
  the second, what it was with the camera offset added some number of times.
\<close>

definition offsets_added :: "pose_store \<Rightarrow> pose_store \<Rightarrow> bool" where
  "offsets_added store store' =
     (length store \<le> length store'
      \<and> (\<forall>i < length store. \<exists>k. store' ! i = (add_camera_offset ^^ k) (store ! i)))"

section \<open>Homogeneous to cartesian coordinates (\<open>homography.py\<close>, \<open>hom_to_cart\<close>)\<close>

text \<open>
  The argument is an array with one row per coordinate and one column per point, the last
  row holding the \<open>w\<close> of every point.  numpy divides by zero without raising: the
  quotient is \<open>inf\<close>, \<open>-inf\<close> or \<open>nan\<close> (and a warning is printed), so the entries of the
  result are either finite numbers or one of these non-finite values.
\<close>

datatype npval = Finite real | NonFinite

definition np_div :: "real \<Rightarrow> real \<Rightarrow> npval" where
  "np_div x w = (if w = 0 then NonFinite else Finite (x / w))"

text \<open>
  \<open>points[-1]\<close> raises \<open>IndexError\<close> on an array without rows; \<open>points / w\<close> divides every
  row by \<open>w\<close>, entry by entry; \<open>cart_pts[:-1]\<close> drops the last row.
\<close>

definition hom_to_cart :: "real list list \<Rightarrow> py_error + npval list list" where
  "hom_to_cart points =
     (if points = [] then Inl IndexError
      else let w = last points;
               cart_pts = map (\<lambda>row. map2 np_div row w) points
           in Inr (butlast cart_pts))"

section \<open>The stitched mosaic (\<open>homography_from_chessboard.py\<close>, \<open>plot_BEV_full\<close>)\<close>

text \<open>
  A raster is the list of its rows, a row the list of its pixels.  \<open>to_gray\<close> is the
  grayscale value \<open>cv2.cvtColor\<close> gives a pixel (the pixel itself when the image has two
  dimensions).
\<close>

type_synonym 'px raster = "'px list list"

definition has_content :: "('px \<Rightarrow> nat) \<Rightarrow> int \<Rightarrow> 'px list \<Rightarrow> bool" where
  "has_content to_gray threshold row = list_ex (\<lambda>p. threshold < int (to_gray p)) row"

text \<open>
  The loop of lines 193--198, over the rows from the bottom one upwards: \<open>crop_row\<close> keeps
  its initial value unless a row has a pixel above the threshold, at which the loop
  breaks.
\<close>

fun find_crop_row :: "('px \<Rightarrow> nat) \<Rightarrow> int \<Rightarrow> 'px raster \<Rightarrow> nat list \<Rightarrow> nat \<Rightarrow> nat" where
  "find_crop_row to_gray threshold img [] crop_row = crop_row"
| "find_crop_row to_gray threshold img (row # rest) crop_row =
     (if has_content to_gray threshold (img ! row) then row + 1
      else find_crop_row to_gray threshold img rest crop_row)"

definition crop_bottom_to_content :: "('px \<Rightarrow> nat) \<Rightarrow> 'px raster \<Rightarrow> int \<Rightarrow> 'px raster" where
  "crop_bottom_to_content to_gray img threshold =
     (let h = length img;
          crop_row = find_crop_row to_gray threshold img (rev [0..<h]) h
      in take crop_row img)"

text \<open>
  \<open>cv2.hconcat\<close> and \<open>cv2.vconcat\<close>: both fail on an empty list and on images whose
  heights, respectively widths, differ.
\<close>

definition width :: "'px raster \<Rightarrow> nat" where
  "width im = (case im of [] \<Rightarrow> 0 | row # _ \<Rightarrow> length row)"

definition hconcat :: "'px raster list \<Rightarrow> py_error + 'px raster" where
  "hconcat ims =
     (case ims of
        [] \<Rightarrow> Inl CvError
      | im # rest \<Rightarrow>
          if list_all (\<lambda>i. length i = length im) rest
          then Inr (map (\<lambda>r. concat (map (\<lambda>i. i ! r) ims)) [0..<length im])
          else Inl CvError)"

definition vconcat :: "'px raster list \<Rightarrow> py_error + 'px raster" where
  "vconcat ims =
     (case ims of
        [] \<Rightarrow> Inl CvError
      | im # rest \<Rightarrow>
          if list_all (\<lambda>i. width i = width im) rest then Inr (concat ims) else Inl CvError)"

text \<open>A list comprehension whose element expression may raise: the first error wins.\<close>

fun collect :: "('e + 'a) list \<Rightarrow> 'e + 'a list" where
  "collect [] = Inr []"
| "collect (Inl e # _) = Inl e"
| "collect (Inr x # xs) = (case collect xs of Inl e \<Rightarrow> Inl e | Inr ys \<Rightarrow> Inr (x # ys))"

text \<open>
  Lines 232--249, \<open>process_patch\<close>: the warp through the homography shifted by
  \<open>(sx, sy)\<close>, resized when its height and width are not \<open>patch_size\<close>.
\<close>

definition process_patch ::
    "'px raster cv2 \<Rightarrow> 'px raster \<Rightarrow> mat3 \<Rightarrow> nat \<times> nat \<Rightarrow> int \<times> int \<Rightarrow> 'px raster" where
  "process_patch cv img H patch_size shift =
     (let sx = fst shift; sy = snd shift;
          T_shift = ((1, 0, real_of_int sx), (0, 1, real_of_int sy), (0, 0, 1));
          H_shifted = mat_mul T_shift H;
          cur_patch = warpPerspective cv img H_shifted patch_size
      in if take 2 (shape cv cur_patch) \<noteq> [fst patch_size, snd patch_size]
         then resize cv cur_patch patch_size else cur_patch)"

text \<open>
  Lines 211--265: the grid of the shifted patches, stitched row by row.  The thread pool
  maps \<open>process_patch\<close> over the shift pairs and keeps their order.
\<close>

definition stitch_BEV ::
    "'px raster cv2 \<Rightarrow> 'px raster \<Rightarrow> mat3 \<Rightarrow> nat \<times> nat \<Rightarrow> py_error + 'px raster" where
  "stitch_BEV cv img H patch_size =
     (let num_patches_x = 6; num_patches_y = 10; shift_step = 128;
          shift_x = rev (sort (map (\<lambda>k. k * shift_step) [- num_patches_x..num_patches_x + 1]));
          shift_y = rev (sort (map (\<lambda>k. k * shift_step) [- 2..num_patches_y - 1]));
          shift_pairs = concat (map (\<lambda>sy. map (\<lambda>sx. (sx, sy)) shift_x) shift_y);
          patches = map (process_patch cv img H patch_size) shift_pairs;
          rows = length shift_y;
          cols = length shift_x
      in case collect (map (\<lambda>i. hconcat (take cols (drop (i * cols) patches))) [0..<rows]) of
           Inl e \<Rightarrow> Inl e
         | Inr row_images \<Rightarrow> vconcat row_images)"

definition plot_BEV_full ::
    "'px raster cv2 \<Rightarrow> ('px \<Rightarrow> nat) \<Rightarrow> 'px raster \<Rightarrow> mat3 \<Rightarrow> nat \<times> nat
       \<Rightarrow> py_error + 'px raster" where
  "plot_BEV_full cv to_gray img H patch_size =
     (case stitch_BEV cv img H patch_size of
        Inl e \<Rightarrow> Inl e
      | Inr stitched_image \<Rightarrow> Inr (crop_bottom_to_content to_gray stitched_image 1))"

text \<open>A stand-in for OpenCV whose warps are black patches of one pixel.\<close>

definition black_cv :: "nat raster cv2" where
  "black_cv =
     \<lparr>warpPerspective = (\<lambda>_ _ _. [[0]]), resize = (\<lambda>im _. im),
      shape = (\<lambda>im. [length im, width im]), perspectiveTransform = (\<lambda>_ p. p)\<rparr>"

text \<open>
  A stand-in for OpenCV whose warp is one bright pixel when the vertical shift of the
  homography is not negative, and one black pixel when it is.
\<close>

definition banded_cv :: "nat raster cv2" where
  "banded_cv =
     \<lparr>warpPerspective = (\<lambda>_ Hm _. [[if 0 \<le> snd (snd (fst (snd Hm))) then 5 else 0]]),
      resize = (\<lambda>im _. im), shape = (\<lambda>im. [length im, width im]),
      perspectiveTransform = (\<lambda>_ p. p)\<rparr>"

section \<open>Tile width of the detected chessboard (\<open>homography_from_chessboard.py\<close>)\<close>

text \<open>
  A corner is the pair of its image coordinates \<open>(x, y)\<close>.  \<open>sorted\<close> and \<open>list.sort\<close> with a
  key are stable sorts, as \<open>sort_key\<close> is.
\<close>

type_synonym point2 = "real \<times> real"

text \<open>\<open>np.linalg.norm(np.array(p) - np.array(q))\<close>\<close>

definition distance2 :: "point2 \<Rightarrow> point2 \<Rightarrow> real" where
  "distance2 p q = sqrt ((fst p - fst q)\<^sup>2 + (snd p - snd q)\<^sup>2)"

text \<open>The slice \<open>xs[a:b]\<close> for \<open>0 \<le> a \<le> b\<close>.\<close>

definition slice :: "'a list \<Rightarrow> nat \<Rightarrow> nat \<Rightarrow> 'a list" where
  "slice xs a b = take (b - a) (drop a xs)"

text \<open>Lines 66--70: the corners sorted by \<open>y\<close> and split into rows of \<open>interval\<close> corners.\<close>

definition corner_rows :: "point2 list \<Rightarrow> nat \<Rightarrow> point2 list list" where
  "corner_rows corners interval =
     (let sorted_corners = sort_key snd corners
      in map (\<lambda>i. slice sorted_corners (i * interval) ((i + 1) * interval))
           [0..<length sorted_corners div interval])"

text \<open>Lines 76--78, the loop over the indices of one row.\<close>

fun row_loop :: "point2 list \<Rightarrow> nat list \<Rightarrow> real \<Rightarrow> real" where
  "row_loop row [] cb_tile_width = cb_tile_width"
| "row_loop row (i # rest) cb_tile_width =
     (let distance = distance2 (row ! i) (row ! (i + 1))
      in row_loop row rest (max cb_tile_width distance))"

text \<open>Lines 74--78, the loop over the rows; each row is sorted by \<open>x\<close> first.\<close>

fun rows_loop :: "point2 list list \<Rightarrow> real \<Rightarrow> real" where
  "rows_loop [] cb_tile_width = cb_tile_width"
| "rows_loop (row # rest) cb_tile_width =
     (let row' = sort_key fst row
      in rows_loop rest (row_loop row' [0..<length row' - 1] cb_tile_width))"

text \<open>
  \<open>chessboard_tile_width\<close>; the division \<open>len(sorted_corners) // interval\<close> raises
  \<open>ZeroDivisionError\<close> when \<open>cb_cols\<close> is zero.
\<close>

definition chessboard_tile_width :: "point2 list \<Rightarrow> nat \<Rightarrow> py_error + real" where
  "chessboard_tile_width corners cb_cols =
     (if cb_cols = 0 then Inl ZeroDivisionError
      else Inr (rows_loop (corner_rows corners cb_cols) 0))"

text \<open>
  What the specification says of the estimate, in its words: the rows, each sorted
  horizontally; the distances between consecutive corners of a row; and the distances of
  all rows.
\<close>

definition sorted_rows :: "point2 list \<Rightarrow> nat \<Rightarrow> point2 list list" where
  "sorted_rows corners cb_cols = map (sort_key fst) (corner_rows corners cb_cols)"

definition consecutive_distances :: "point2 list \<Rightarrow> real list" where
  "consecutive_distances row = map2 distance2 row (tl row)"

definition row_spacings :: "point2 list \<Rightarrow> nat \<Rightarrow> real list" where
  "row_spacings corners cb_cols = concat (map consecutive_distances (sorted_rows corners cb_cols))"

section \<open>Model chessboard points\<close>

text \<open>
  The two nested loops of the generators: the array, first all zeros, gets the point of
  \<open>(row, col)\<close> at index \<open>row * cols + col\<close>.
\<close>

definition grid_loops :: "nat \<Rightarrow> nat \<Rightarrow> (nat \<Rightarrow> nat \<Rightarrow> point2) \<Rightarrow> point2 list \<Rightarrow> point2 list" where
  "grid_loops rows cols point model_chessboard =
     fold (\<lambda>row. fold (\<lambda>col m. m[row * cols + col := point row col]) [0..<cols])
       [0..<rows] model_chessboard"

text \<open>\<open>compute_model_chessboard\<close> of \<open>homography.py\<close> (lines 200--208): tiles of width one.\<close>

definition compute_model_chessboard :: "nat \<Rightarrow> nat \<Rightarrow> point2 list" where
  "compute_model_chessboard rows cols =
     (let model_chessboard = replicate (rows * cols) (0, 0);
          midpoint_row = real rows / 2;
          midpoint_col = real cols / 2
      in grid_loops rows cols
           (\<lambda>row col. ((real col + 0.5) - midpoint_col, (real row + 0.5) - midpoint_row))
           model_chessboard)"

text \<open>
  Modelled from the spec: \<open>compute_model_chessboard_2d\<close> of \<open>homography_utils.py\<close>, a file
  of the repository that is not among the sources.  The specification gives it as the
  deterministic grid of \<open>rows * cols\<close> points in row-major order, left to right within a
  row, with spacing \<open>tile_width\<close>, centred at the origin or anchored at a corner; the
  centring is that of \<open>compute_model_chessboard\<close>.
\<close>

definition compute_model_chessboard_2d :: "nat \<Rightarrow> nat \<Rightarrow> real \<Rightarrow> bool \<Rightarrow> point2 list" where
  "compute_model_chessboard_2d rows cols tile_width center_at_zero =
     (let model_chessboard = replicate (rows * cols) (0, 0);
          midpoint_row = real rows / 2;
          midpoint_col = real cols / 2
      in grid_loops rows cols
           (\<lambda>row col.
              if center_at_zero
              then (((real col + 0.5) - midpoint_col) * tile_width,
                    ((real row + 0.5) - midpoint_row) * tile_width)
              else (real col * tile_width, real row * tile_width))
           model_chessboard)"

section \<open>The chessboard calibrator (\<open>homography_from_chessboard.py\<close>, \<open>__init__\<close>)\<close>

text \<open>
  \<open>CAMERA_INTRINSICS\<close> of \<open>camera_intrinsics.py\<close>, as read from the configuration file, and
  \<open>get_camera_calibration_matrix\<close>: the matrix \<open>K\<close> and its inverse.
\<close>

record camera_intrinsics =
  fx :: real
  fy :: real
  cx :: real
  cy :: real

definition get_camera_calibration_matrix :: "camera_intrinsics \<Rightarrow> py_error + (mat3 \<times> mat3)" where
  "get_camera_calibration_matrix config =
     (let K = ((fx config, 0, cx config), (0, fy config, cy config), (0, 0, 1))
      in case inv3 K of Inl e \<Rightarrow> Inl e | Inr K_inv \<Rightarrow> Inr (K, K_inv))"

text \<open>
  The collaborators of the constructor: the OpenCV routines, and \<open>decompose_homography\<close>
  of \<open>homography_utils.py\<close>, which is not among the sources.  \<open>findChessboardCorners\<close>
  returns its success flag and the corner array, which is \<open>None\<close> when it has no corner to
  return.
\<close>

record 'img calibration_cv =
  cvtColor :: "'img \<Rightarrow> 'img"
  findChessboardCorners :: "'img \<Rightarrow> nat \<times> nat \<Rightarrow> bool \<times> point2 list option"
  findHomography :: "point2 list \<Rightarrow> point2 list \<Rightarrow> py_error + mat3"
  decompose_homography :: "mat3 \<Rightarrow> mat3 \<Rightarrow> py_error + (mat4 \<times> vec3 \<times> real)"

text \<open>The attributes of a constructed \<open>HomographyFromChessboardImage\<close>.\<close>

record 'img chessboard_homography =
  self_image :: 'img
  self_cb_rows :: nat
  self_cb_cols :: nat
  self_corners :: "point2 list"
  self_cb_tile_width :: int
  self_H :: mat3
  self_K :: mat3
  self_RT :: mat4
  self_plane_normal :: vec3
  self_plane_distance :: real

text \<open>
  Lines 13--31.  The flag \<open>ret\<close> is never read; \<open>corners.reshape\<close> on \<open>None\<close> raises
  \<open>AttributeError\<close>.  The reprojections of lines 33--37 add attributes for the display
  only and are left out.  An exception leaves no object behind: the result is either the
  error or the constructed object.
\<close>

definition HomographyFromChessboardImage ::
    "'img calibration_cv \<Rightarrow> camera_intrinsics \<Rightarrow> 'img \<Rightarrow> nat \<Rightarrow> nat
       \<Rightarrow> py_error + 'img chessboard_homography" where
  "HomographyFromChessboardImage cv config img cb_rows cb_cols =
     (let gray = cvtColor cv img
      in case findChessboardCorners cv gray (cb_cols, cb_rows) of
        (ret, None) \<Rightarrow> Inl AttributeError
      | (ret, Some corners) \<Rightarrow>
          (case chessboard_tile_width corners cb_cols of
             Inl e \<Rightarrow> Inl e
           | Inr estimate \<Rightarrow>
               let cb_tile_width = py_int estimate;
                   model_chessboard_2d =
                     compute_model_chessboard_2d cb_rows cb_cols (real_of_int cb_tile_width) True
               in case findHomography cv model_chessboard_2d corners of
                    Inl e \<Rightarrow> Inl e
                  | Inr H \<Rightarrow>
                      (case get_camera_calibration_matrix config of
                         Inl e \<Rightarrow> Inl e
                       | Inr (K, K_inv) \<Rightarrow>
                           (case decompose_homography cv H K of
                              Inl e \<Rightarrow> Inl e
                            | Inr (RT, plane_normal, plane_distance) \<Rightarrow>
                                Inr \<lparr>self_image = img, self_cb_rows = cb_rows,
                                     self_cb_cols = cb_cols, self_corners = corners,
                                     self_cb_tile_width = cb_tile_width, self_H = H,
                                     self_K = K, self_RT = RT,
                                     self_plane_normal = plane_normal,
                                     self_plane_distance = plane_distance\<rparr>))))"

text \<open>
  A stand-in for OpenCV whose detector finds no chessboard, as on an image without
  contrast: the flag is \<open>False\<close> and there is no corner array.
\<close>

definition blind_cv :: "nat raster calibration_cv" where
  "blind_cv =
     \<lparr>cvtColor = (\<lambda>img. img), findChessboardCorners = (\<lambda>_ _. (False, None)),
      findHomography = (\<lambda>_ _. Inl CvError),
      decompose_homography = (\<lambda>_ _. Inl DecompositionError)\<rparr>"

section \<open>Decomposition of a homography (\<open>homography.py\<close>, \<open>decompose_homography_return_rt\<close>)\<close>

text \<open>
  \<open>np.linalg.svd\<close> is a collaborator, taken as a parameter.  Its contract: for a matrix
  \<open>R\<close> it returns \<open>U\<close>, the singular values \<open>S\<close> and \<open>V\<close> with \<open>U\<close> and \<open>V\<close> orthonormal, the
  singular values not negative and \<open>R = U \<cdot> diag(S) \<cdot> V\<close> (the third result is the factor
  on the right itself, not its transpose).
\<close>

definition diag3 :: "vec3 \<Rightarrow> mat3" where
  "diag3 s = (case s of (s1, s2, s3) \<Rightarrow> ((s1, 0, 0), (0, s2, 0), (0, 0, s3)))"

definition is_svd :: "mat3 \<Rightarrow> mat3 \<times> vec3 \<times> mat3 \<Rightarrow> bool" where
  "is_svd R usv =
     (case usv of (U, S, V) \<Rightarrow>
        mat_mul (transpose3 U) U = eye3 \<and> mat_mul (transpose3 V) V = eye3
        \<and> (case S of (s1, s2, s3) \<Rightarrow> 0 \<le> s1 \<and> 0 \<le> s2 \<and> 0 \<le> s3)
        \<and> R = mat_mul (mat_mul U (diag3 S)) V)"

text \<open>Lines 241--243: \<open>M = np.eye(4)\<close>, \<open>M[:3, :3] = R\<close>, \<open>M[:3, 3] = T\<close>.\<close>

definition rigid4 :: "mat3 \<Rightarrow> vec3 \<Rightarrow> mat4" where
  "rigid4 R T =
     (case R of ((a, b, c), (d, e, f), (g, h, i)) \<Rightarrow> case T of (x, y, z) \<Rightarrow>
        ((a, b, c, x), (d, e, f, y), (g, h, i, z), (0, 0, 0, 1)))"

text \<open>
  Lines 219--244.  When \<open>K_inv \<cdot> h1\<close> is the zero vector, \<open>L\<close> is infinite, \<open>R\<close> has \<open>nan\<close>
  entries and \<open>np.linalg.svd\<close> raises \<open>LinAlgError\<close>.
\<close>

definition decompose_homography_return_rt ::
    "(mat3 \<Rightarrow> mat3 \<times> vec3 \<times> mat3) \<Rightarrow> mat3 \<Rightarrow> mat3 \<Rightarrow> py_error + mat4" where
  "decompose_homography_return_rt svd H K_inv =
     (let Ht = transpose3 H;
          h1 = fst Ht;
          h2 = fst (snd Ht);
          h3 = snd (snd Ht)
      in if norm3 (mat_vec K_inv h1) = 0 then Inl LinAlgError
         else
           let L = 1 / norm3 (mat_vec K_inv h1);
               r1 = smult L (mat_vec K_inv h1);
               r2 = smult L (mat_vec K_inv h2);
               r3 = cross r1 r2;
               T = smult L (mat_vec K_inv h3);
               R = (r1, r2, r3)
           in case svd R of (U, S, V) \<Rightarrow> Inr (rigid4 (mat_mul U V) T))"

text \<open>The matrix \<open>R\<close> of line 234, which is handed to the singular value decomposition.\<close>

definition assembled_rotation :: "mat3 \<Rightarrow> mat3 \<Rightarrow> mat3" where
  "assembled_rotation H K_inv =
     (let Ht = transpose3 H;
          L = 1 / norm3 (mat_vec K_inv (fst Ht));
          r1 = smult L (mat_vec K_inv (fst Ht));
          r2 = smult L (mat_vec K_inv (fst (snd Ht)))
      in (r1, r2, cross r1 r2))"

section \<open>Matrix algebra\<close>

lemma mat_mul_eye_right: "mat_mul a eye3 = a"
  by (simp add: mat_mul_def eye3_def transpose3_def dot_def split: prod.splits)



lemma mat_scale_scale: "mat_scale k (mat_scale l m) = mat_scale (k * l) m"
  by (simp add: mat_scale_def smult_def algebra_simps split: prod.splits)

lemma mat_scale_one: "mat_scale 1 m = m"
  by (simp add: mat_scale_def smult_def split: prod.splits)


lemma vsub_self: "vsub v v = (0, 0, 0)"
  by (simp add: vsub_def split: prod.splits)

lemma mat_vec_zero: "mat_vec m (0, 0, 0) = (0, 0, 0)"
  by (simp add: mat_vec_def dot_def split: prod.splits)

lemma outer_zero: "mat_scale k (outer (0, 0, 0) n) = ((0, 0, 0), (0, 0, 0), (0, 0, 0))"
  by (simp add: outer_def mat_scale_def smult_def split: prod.splits)

lemma mat_sub_zero: "mat_sub m ((0, 0, 0), (0, 0, 0), (0, 0, 0)) = m"
  by (simp add: mat_sub_def vsub_def split: prod.splits)

lemma rot_block_add_camera_offset: "rot_block (add_camera_offset rt) = rot_block rt"
  by (simp add: add_camera_offset_def set_trans_col_def rot_block_def split: prod.splits)

lemma bottom_row_add_camera_offset: "bottom_row (add_camera_offset rt) = bottom_row rt"
  by (simp add: add_camera_offset_def set_trans_col_def bottom_row_def split: prod.splits)

lemma trans_col_add_camera_offset:
  "trans_col (add_camera_offset rt) = vadd (trans_col rt) camera_offset"
  by (simp add: add_camera_offset_def set_trans_col_def trans_col_def vadd_def
      split: prod.splits)

lemma mat_mul_assoc: "mat_mul (mat_mul a b) c = mat_mul a (mat_mul b c)"
  by (simp add: mat_mul_def transpose3_def dot_def algebra_simps split: prod.splits)

lemma mat_mul_eye_left: "mat_mul eye3 a = a"
  by (simp add: mat_mul_def eye3_def transpose3_def dot_def split: prod.splits)

lemma adjugate_mat_mul: "mat_mul (adjugate3 m) m = mat_scale (det3 m) eye3"
proof -
  obtain a b c d e f g h i where m: "m = ((a, b, c), (d, e, f), (g, h, i))"
    by (metis surj_pair)
  show ?thesis
    unfolding m
    by (simp add: mat_mul_def adjugate3_def transpose3_def dot_def cross_def det3_def
        mat_scale_def smult_def eye3_def algebra_simps)
qed

lemma mat_mul_scale_left: "mat_mul (mat_scale k a) b = mat_scale k (mat_mul a b)"
  by (simp add: mat_mul_def transpose3_def dot_def mat_scale_def smult_def algebra_simps
      split: prod.splits)

lemma inv3_mat_mul: "inv3 K = Inr Ki \<Longrightarrow> mat_mul Ki K = eye3"
  by (auto simp: inv3_def mat_mul_scale_left adjugate_mat_mul mat_scale_scale mat_scale_one
      split: if_splits)

lemma mat_mul_left_cancel:
  assumes "det3 a \<noteq> 0" and "mat_mul a b = a"
  shows "b = eye3"
proof -
  obtain ai where ai: "inv3 a = Inr ai"
    using assms(1) by (simp add: inv3_def)
  have "b = mat_mul (mat_mul ai a) b"
    by (simp add: inv3_mat_mul [OF ai] mat_mul_eye_left)
  also have "\<dots> = mat_mul ai (mat_mul a b)"
    by (rule mat_mul_assoc)
  also have "\<dots> = eye3"
    by (simp add: assms(2) inv3_mat_mul [OF ai])
  finally show ?thesis .
qed

lemma conjugate_eye3:
  assumes "inv3 K = Inr Ki" and "mat_mul (mat_mul K a) Ki = eye3"
  shows "a = eye3"
proof -
  have "a = mat_mul (mat_mul Ki K) (mat_mul a (mat_mul Ki K))"
    by (simp add: inv3_mat_mul [OF assms(1)] mat_mul_eye_left mat_mul_eye_right)
  also have "\<dots> = mat_mul Ki (mat_mul (mat_mul (mat_mul K a) Ki) K)"
    by (simp only: mat_mul_assoc)
  also have "\<dots> = eye3"
    by (simp add: assms(2) mat_mul_eye_left inv3_mat_mul [OF assms(1)])
  finally show ?thesis .
qed

section \<open>Identity propagation\<close>





text \<open>
  The three conditions are needed wherever the calibrated homography is invertible: if
  lines 53--58 on twice the same pose return \<open>H\<close>, then the distance is not zero, \<open>K\<close> is
  invertible and \<open>R\<^sup>T R = I\<close>.
\<close>

lemma identity_propagation_converse:
  assumes H: "det3 H \<noteq> 0"
    and res: "past_homographies H K plane_normal plane_distance rt rt = Inr (H_rel, H)"
  shows "plane_distance \<noteq> 0 \<and> det3 K \<noteq> 0
     \<and> mat_mul (transpose3 (rot_block rt)) (rot_block rt) = eye3"
proof -
  let ?A = "mat_mul (transpose3 (rot_block rt)) (rot_block rt)"
  from res have d: "plane_distance \<noteq> 0"
    by (auto simp: past_homographies_def Let_def compute_homography_from_rt_def)
  from res d have K: "det3 K \<noteq> 0"
    by (auto simp: past_homographies_def Let_def compute_homography_from_rt_def inv3_def)
  then obtain Ki where Ki: "inv3 K = Inr Ki"
    by (simp add: inv3_def)
  from res d Ki have rel: "H_rel = mat_mul (mat_mul K ?A) Ki" and "mat_mul H H_rel = H"
    by (auto simp: past_homographies_def Let_def compute_homography_from_rt_def
        vsub_self mat_vec_zero outer_zero mat_sub_zero)
  from mat_mul_left_cancel [OF H this(2)] rel have "mat_mul (mat_mul K ?A) Ki = eye3"
    by simp
  from conjugate_eye3 [OF Ki this] d K show ?thesis by simp
qed

section \<open>Overlap test\<close>

text \<open>
  C3.  On two boxes \<open>A = [xminA, yminA, xmaxA, ymaxA]\<close> and \<open>B\<close> the overlap test returns
  normally, and its answer is true exactly when none of the four strict separations
  \<open>xmaxA < xminB\<close>, \<open>xmaxB < xminA\<close>, \<open>ymaxA < yminB\<close>, \<open>ymaxB < yminA\<close> holds; the boxes
  \<open>[0,0,10,10]\<close> and \<open>[10,0,20,10]\<close>, which touch along the line \<open>x = 10\<close>, overlap.
\<close>

theorem does_overlap_inclusive:
  "does_overlap [xminA, yminA, xmaxA, ymaxA] [xminB, yminB, xmaxB, ymaxB] =
     Inr (\<not> (xmaxA < xminB \<or> xmaxB < xminA \<or> ymaxA < yminB \<or> ymaxB < yminA))
   \<and> does_overlap [0, 0, 10, 10] [10, 0, 20, 10] = Inr True"
  by (simp add: does_overlap_def)

theorem does_overlap_inclusive_witness:
  "does_overlap [0, 0, 10, 10] [11, 0, 20, 10] = Inr False
   \<and> does_overlap [0, 0, 10, 10] [10, 10, 20, 20] = Inr True"
  using does_overlap_inclusive [of 0 0 10 10 11 0 20 10]
        does_overlap_inclusive [of 0 0 10 10 10 10 20 20]
  by simp

section \<open>The loops of the sampler\<close>

lemma length_offset_pose_in_place [simp]:
  "length (offset_pose_in_place t rd) = length rd"
  by (simp add: offset_pose_in_place_def)

lemma past_loop_extends:
  "past_loop cv H K n d ps t hs rd tps = (Inr tps', rd')
   \<Longrightarrow> \<exists>extra. tps' = tps @ extra \<and> length extra \<le> length hs"
proof (induction hs arbitrary: rd tps)
  case Nil
  then show ?case by simp
next
  case (Cons h hs)
  show ?case
  proof (cases "int t - int h < 0")
    case True
    with Cons.prems have "past_loop cv H K n d ps t hs rd tps = (Inr tps', rd')" by simp
    from Cons.IH [OF this] show ?thesis by auto
  next
    case False
    let ?rd = "offset_pose_in_place (t - h) rd"
    let ?pp = "past_patch cv H K n d ps (getImageAtTimestep rd (t - h))
                 (getOdomAtTimestep ?rd t) (getOdomAtTimestep ?rd (t - h))"
    show ?thesis
    proof (cases ?pp)
      case (Inl e)
      with False Cons.prems show ?thesis by (simp add: Let_def)
    next
      case (Inr r)
      show ?thesis
      proof (cases r)
        case None
        with Inr False Cons.prems
        have "past_loop cv H K n d ps t hs ?rd tps = (Inr tps', rd')" by (simp add: Let_def)
        from Cons.IH [OF this] show ?thesis by auto
      next
        case (Some p)
        with Inr False Cons.prems
        have "past_loop cv H K n d ps t hs ?rd (tps @ [p]) = (Inr tps', rd')"
          by (simp add: Let_def)
        from Cons.IH [OF this] obtain extra
          where "tps' = (tps @ [p]) @ extra" "length extra \<le> length hs" by auto
        then have "tps' = tps @ (p # extra) \<and> length (p # extra) \<le> length (h # hs)" by simp
        then show ?thesis by blast
      qed
    qed
  qed
qed

lemma past_loop_append:
  "past_loop cv H K n d ps t (hs1 @ hs2) rd tps =
     (case past_loop cv H K n d ps t hs1 rd tps of
        (Inl e, rd1) \<Rightarrow> (Inl e, rd1)
      | (Inr tps1, rd1) \<Rightarrow> past_loop cv H K n d ps t hs2 rd1 tps1)"
  by (induction hs1 arbitrary: rd tps) (auto simp: Let_def split: sum.splits option.splits)

lemma past_loop_excluded:
  assumes "past_loop cv H K n d ps t (h # hs) rd tps = (Inr tps', rd')"
    and "h \<le> t" and "offset_excluded cv H K n d ps t h rd"
  shows "\<exists>extra. tps' = tps @ extra \<and> length extra \<le> length hs"
proof -
  from assms have "past_loop cv H K n d ps t hs (offset_pose_in_place (t - h) rd) tps = (Inr tps', rd')"
    by (simp add: offset_excluded_def Let_def)
  then show ?thesis by (rule past_loop_extends)
qed

lemma past_loop_fewer:
  assumes run: "past_loop cv H K n d ps t (hs1 @ h # hs2) rd tps = (Inr tps', rd')"
    and "h \<le> t"
    and excl: "offset_excluded cv H K n d ps t h (snd (past_loop cv H K n d ps t hs1 rd tps))"
  shows "length tps' < length tps + length (hs1 @ h # hs2)"
proof -
  obtain r1 rd1 where p1: "past_loop cv H K n d ps t hs1 rd tps = (r1, rd1)"
    by (cases "past_loop cv H K n d ps t hs1 rd tps")
  show ?thesis
  proof (cases r1)
    case (Inl e)
    with run p1 show ?thesis by (simp add: past_loop_append)
  next
    case (Inr tps1)
    with run p1 have rest: "past_loop cv H K n d ps t (h # hs2) rd1 tps1 = (Inr tps', rd')"
      by (simp add: past_loop_append)
    from p1 Inr past_loop_extends obtain e1 where e1: "tps1 = tps @ e1" "length e1 \<le> length hs1"
      by blast
    from excl p1 have "offset_excluded cv H K n d ps t h rd1" by simp
    from past_loop_excluded [OF rest \<open>h \<le> t\<close> this]
    obtain e2 where "tps' = tps1 @ e2" "length e2 \<le> length hs2" by blast
    with e1 show ?thesis by simp
  qed
qed

lemma process_timestep_bound:
  assumes "process_timestep cv H K n d N ps t rd = (Inr tps, rd')"
  shows "1 \<le> length tps \<and> length tps \<le> 1 + (N - 1)
         \<and> hd tps = warp_patch cv (getImageAtTimestep rd t) H ps"
proof -
  from assms past_loop_extends obtain extra
    where "tps = [warp_patch cv (getImageAtTimestep rd t) H ps] @ extra"
      "length extra \<le> length [1..<N]"
    unfolding process_timestep_def Let_def by blast
  then show ?thesis by simp
qed

lemma timestep_loop_lists:
  "timestep_loop cv H K n d N ps ts rd acc = (Inr patches, rd')
   \<Longrightarrow> \<forall>tp \<in> set acc. 1 \<le> length tp \<and> length tp \<le> 1 + (N - 1)
   \<Longrightarrow> length patches = length acc + length ts
       \<and> (\<forall>tp \<in> set patches. 1 \<le> length tp \<and> length tp \<le> 1 + (N - 1))"
proof (induction ts arbitrary: rd acc)
  case Nil
  then show ?case by simp
next
  case (Cons t ts)
  obtain r rd1 where pt: "process_timestep cv H K n d N ps t rd = (r, rd1)"
    by (cases "process_timestep cv H K n d N ps t rd")
  show ?case
  proof (cases r)
    case (Inl e)
    with Cons.prems pt show ?thesis by simp
  next
    case (Inr tps)
    with Cons.prems pt
    have run: "timestep_loop cv H K n d N ps ts rd1 (acc @ [tps]) = (Inr patches, rd')" by simp
    from pt Inr have "1 \<le> length tps \<and> length tps \<le> 1 + (N - 1)"
      using process_timestep_bound by blast
    with Cons.prems(2)
    have "\<forall>tp \<in> set (acc @ [tps]). 1 \<le> length tp \<and> length tp \<le> 1 + (N - 1)" by auto
    from Cons.IH [OF run this] show ?thesis by simp
  qed
qed

lemma timestep_loop_append:
  "timestep_loop cv H K n d N ps (ts1 @ ts2) rd acc =
     (case timestep_loop cv H K n d N ps ts1 rd acc of
        (Inl e, rd1) \<Rightarrow> (Inl e, rd1)
      | (Inr acc1, rd1) \<Rightarrow> timestep_loop cv H K n d N ps ts2 rd1 acc1)"
  by (induction ts1 arbitrary: rd acc) (auto split: sum.splits prod.splits)

lemma timestep_loop_extends:
  "timestep_loop cv H K n d N ps ts rd acc = (Inr patches, rd')
   \<Longrightarrow> \<exists>extra. patches = acc @ extra \<and> length extra = length ts"
proof (induction ts arbitrary: rd acc)
  case Nil
  then show ?case by simp
next
  case (Cons t ts)
  obtain r rd1 where pt: "process_timestep cv H K n d N ps t rd = (r, rd1)"
    by (cases "process_timestep cv H K n d N ps t rd")
  show ?case
  proof (cases r)
    case (Inl e)
    with Cons.prems pt show ?thesis by simp
  next
    case (Inr tps)
    with Cons.prems pt
    have "timestep_loop cv H K n d N ps ts rd1 (acc @ [tps]) = (Inr patches, rd')" by simp
    from Cons.IH [OF this] obtain extra
      where "patches = (acc @ [tps]) @ extra" "length extra = length ts" by blast
    then have "patches = acc @ (tps # extra) \<and> length (tps # extra) = length (t # ts)" by simp
    then show ?thesis by blast
  qed
qed

lemma timestep_loop_nth:
  assumes run: "timestep_loop cv H K n d N ps ts rd acc = (Inr patches, rd')"
    and i: "i < length ts"
  shows "fst (process_timestep cv H K n d N ps (ts ! i)
                (snd (timestep_loop cv H K n d N ps (take i ts) rd acc)))
         = Inr (patches ! (length acc + i))"
proof -
  have ts: "ts = take i ts @ (ts ! i) # drop (Suc i) ts"
    using i by (simp add: id_take_nth_drop)
  obtain r1 rd1 where p1: "timestep_loop cv H K n d N ps (take i ts) rd acc = (r1, rd1)"
    by (cases "timestep_loop cv H K n d N ps (take i ts) rd acc")
  from run have run': "timestep_loop cv H K n d N ps (take i ts @ (ts ! i) # drop (Suc i) ts) rd acc = (Inr patches, rd')"
    using ts by simp
  show ?thesis
  proof (cases r1)
    case (Inl e)
    with run' p1 show ?thesis by (simp add: timestep_loop_append)
  next
    case (Inr acc1)
    with run' p1
    have rest: "timestep_loop cv H K n d N ps ((ts ! i) # drop (Suc i) ts) rd1 acc1 = (Inr patches, rd')"
      by (simp add: timestep_loop_append)
    from p1 Inr timestep_loop_extends obtain e1
      where e1: "acc1 = acc @ e1" "length e1 = length (take i ts)" by blast
    obtain r2 rd2 where p2: "process_timestep cv H K n d N ps (ts ! i) rd1 = (r2, rd2)"
      by (cases "process_timestep cv H K n d N ps (ts ! i) rd1")
    show ?thesis
    proof (cases r2)
      case (Inl e)
      with rest p2 show ?thesis by simp
    next
      case (Inr tps)
      with rest p2
      have "timestep_loop cv H K n d N ps (drop (Suc i) ts) rd2 (acc1 @ [tps]) = (Inr patches, rd')"
        by simp
      from timestep_loop_extends [OF this] obtain e2 where "patches = (acc1 @ [tps]) @ e2" by blast
      with e1 i have "patches ! (length acc + i) = tps"
        by (simp add: nth_append)
      with p1 p2 Inr show ?thesis by simp
    qed
  qed
qed

lemma upt_split: "a \<le> h \<Longrightarrow> h < b \<Longrightarrow> [a..<b] = [a..<h] @ h # [Suc h..<b]"
proof -
  assume a: "a \<le> h" and b: "h < b"
  have "[a..<b] = [a..<h] @ [h..<b]"
    using a b by (metis less_imp_le_nat upt_add_eq_append le_Suc_ex)
  also have "[h..<b] = h # [Suc h..<b]"
    using b by (simp add: upt_conv_Cons)
  finally show ?thesis .
qed

lemma process_timestep_fewer:
  assumes run: "fst (process_timestep cv H K n d N ps t rd) = Inr tps"
    and h: "1 \<le> h" "h < N" "h \<le> t"
    and excl: "offset_excluded cv H K n d ps t h
        (snd (past_loop cv H K n d ps t [1..<h] (offset_pose_in_place t rd)
                [warp_patch cv (getImageAtTimestep rd t) H ps]))"
  shows "length tps < N"
proof -
  let ?rd = "offset_pose_in_place t rd"
  let ?a = "[warp_patch cv (getImageAtTimestep rd t) H ps]"
  obtain rd' where "past_loop cv H K n d ps t [1..<N] ?rd ?a = (Inr tps, rd')"
    using run unfolding process_timestep_def Let_def
    by (cases "past_loop cv H K n d ps t [1..<N] ?rd ?a") simp
  then have "past_loop cv H K n d ps t ([1..<h] @ h # [Suc h..<N]) ?rd ?a = (Inr tps, rd')"
    using upt_split [OF h(1,2)] by simp
  from past_loop_fewer [OF this h(3) excl]
  have "length tps < 1 + length ([1..<h] @ h # [Suc h..<N])" by simp
  also have "([1..<h] @ h # [Suc h..<N]) = [1..<N]"
    using upt_split [OF h(1,2)] by simp
  finally show ?thesis using h by simp
qed

text \<open>
  An offset whose overlap test fails adds no patch and raises nothing: the loop goes on
  with the next offset.
\<close>

lemma excluded_offset_is_skipped:
  assumes "past_hist \<le> timestep"
    and "offset_excluded cv H K n d ps timestep past_hist rd"
  shows "past_loop cv H K n d ps timestep (past_hist # rest) rd tps
     = past_loop cv H K n d ps timestep rest
         (offset_pose_in_place (timestep - past_hist) rd) tps"
  using assms by (simp add: offset_excluded_def Let_def)

section \<open>History bound\<close>

text \<open>
  C4, as the claim states it, fails at history size \<open>0\<close>: the anchor patch is emitted for
  every timestep whatever the history size, so the list of a timestep holds one patch,
  which is more than \<open>N = 0\<close>.
\<close>

theorem history_bound_counterexample:
  "fst (ComputeVicRegData (shifting_cv 0) eye3 eye3 (0, 0, 1) 1 [(7, eye4)] 0 (128, 128))
     = Inr [[7]]
   \<and> \<not> length [7 :: nat] \<le> 0"
  by (simp add: ComputeVicRegData_def getNTimesteps_def process_timestep_def Let_def
      warp_patch_def shifting_cv_def getImageAtTimestep_def)

text \<open>
  C4, amended.  When the sampler returns, it returns one list per timestep from
  \<open>history_size\<close> on; every list holds the anchor patch and at most \<open>N - 1\<close> history
  patches (none when \<open>N \<le> 1\<close>), which for a history size \<open>N \<ge> 1\<close> is at most \<open>N\<close> patches;
  and the list of a timestep holds fewer than \<open>N\<close> patches whenever the overlap test
  fails for one of its history offsets: the offset is skipped and the run goes on.
\<close>

theorem history_bound:
  assumes run: "ComputeVicRegData cv H K n d rd N ps = (Inr patches, rd')"
  shows "length patches = length rd - N
     \<and> (\<forall>tp \<in> set patches.
           1 \<le> length tp \<and> length tp \<le> 1 + (N - 1) \<and> (1 \<le> N \<longrightarrow> length tp \<le> N))
     \<and> (\<forall>t h. N \<le> t \<and> t < length rd \<and> 1 \<le> h \<and> h < N
              \<and> offset_excluded cv H K n d ps t h (robot_data_at cv H K n d N ps rd t h)
           \<longrightarrow> length (patches ! (t - N)) < N)"
proof -
  from run have loop: "timestep_loop cv H K n d N ps [N..<length rd] rd [] = (Inr patches, rd')"
    by (simp add: ComputeVicRegData_def getNTimesteps_def)
  have "\<forall>tp \<in> set ([] :: 'a list list). 1 \<le> length tp \<and> length tp \<le> 1 + (N - 1)" by simp
  from timestep_loop_lists [OF loop this]
  have A: "length patches = length rd - N"
    and B: "\<forall>tp \<in> set patches. 1 \<le> length tp \<and> length tp \<le> 1 + (N - 1)" by simp_all
  have C: "length (patches ! (t - N)) < N"
    if t: "N \<le> t" "t < length rd" and h: "1 \<le> h" "h < N"
      and excl: "offset_excluded cv H K n d ps t h (robot_data_at cv H K n d N ps rd t h)"
    for t h
  proof -
    have i: "t - N < length [N..<length rd]" using t by simp
    have nth: "[N..<length rd] ! (t - N) = t" using t by simp
    have tk: "take (t - N) [N..<length rd] = [N..<t]" using t by (simp add: take_upt)
    from timestep_loop_nth [OF loop i]
    have "fst (process_timestep cv H K n d N ps t
                 (snd (timestep_loop cv H K n d N ps [N..<t] rd []))) = Inr (patches ! (t - N))"
      by (simp add: nth tk del: upt.simps)
    moreover have "h \<le> t" using t h by simp
    ultimately show ?thesis
      using process_timestep_fewer h excl unfolding robot_data_at_def Let_def by blast
  qed
  from A B C show ?thesis by auto
qed

lemma far_footprint_run: "ComputeVicRegData (shifting_cv 1280) eye3 eye3 (0, 0, 1) 1
       [(0, eye4), (1, eye4), (2, eye4)] 2 (128, 128)
     = (Inr [[2]],
        [(0, eye4), (1, add_camera_offset eye4), (2, add_camera_offset eye4)])"
  by code_simp

lemma far_footprint_excluded: "offset_excluded (shifting_cv 1280) eye3 eye3 (0, 0, 1) 1 (128, 128) 2 1
       (robot_data_at (shifting_cv 1280) eye3 eye3 (0, 0, 1) 1 2 (128, 128)
          [(0, eye4), (1, eye4), (2, eye4)] 2 1)"
  by code_simp

theorem history_bound_witness:
  "ComputeVicRegData (shifting_cv 1280) eye3 eye3 (0, 0, 1) 1
       [(0, eye4), (1, eye4), (2, eye4)] 2 (128, 128)
     = (Inr [[2]],
        [(0, eye4), (1, add_camera_offset eye4), (2, add_camera_offset eye4)])
   \<and> offset_excluded (shifting_cv 1280) eye3 eye3 (0, 0, 1) 1 (128, 128) 2 1
       (robot_data_at (shifting_cv 1280) eye3 eye3 (0, 0, 1) 1 2 (128, 128)
          [(0, eye4), (1, eye4), (2, eye4)] 2 1)
   \<and> length ([[2 :: nat]] ! (2 - 2)) < 2"
  using history_bound [OF far_footprint_run] far_footprint_excluded far_footprint_run by simp

section \<open>What the sampler does to the pose arrays\<close>

lemma add_camera_offset_neq: "add_camera_offset p \<noteq> p"
  by (auto simp: add_camera_offset_def set_trans_col_def trans_col_def vadd_def camera_offset_def
      split: prod.splits)

lemma translation_x_add_camera_offset:
  "translation_x (add_camera_offset rt) = translation_x rt + 0.2286"
  by (simp add: translation_x_def trans_col_add_camera_offset vadd_def camera_offset_def
      split: prod.splits)

lemma stored_source_sel [simp]:
  "src_getNTimesteps (stored_source n images) = n"
  "src_getImageAtTimestep (stored_source n images) = images"
  "src_getOdomAtTimestep (stored_source n images) t store = (t, store)"
  by (simp_all add: stored_source_def)

text \<open>Both data sources of the examples are as \<open>hands_out_arrays\<close> asks.\<close>

lemma stored_source_hands_out: "hands_out_arrays (stored_source n images)"
  by (simp add: hands_out_arrays_def stored_source_def)

lemma copying_source_hands_out: "hands_out_arrays (copying_source n images)"
  by (simp add: hands_out_arrays_def copying_source_def)

lemma offsets_added_refl: "offsets_added s s"
  unfolding offsets_added_def
  by (metis funpow_0 order_refl)

lemma offsets_added_trans:
  assumes "offsets_added a b" and "offsets_added b c"
  shows "offsets_added a c"
proof -
  have len: "length a \<le> length b" "length b \<le> length c"
    using assms by (simp_all add: offsets_added_def)
  have "\<exists>k. c ! i = (add_camera_offset ^^ k) (a ! i)" if ia: "i < length a" for i
  proof -
    from ia len have ib: "i < length b" by simp
    obtain k where k: "b ! i = (add_camera_offset ^^ k) (a ! i)"
      using assms(1) ia unfolding offsets_added_def by blast
    obtain l where l: "c ! i = (add_camera_offset ^^ l) (b ! i)"
      using assms(2) ib unfolding offsets_added_def by blast
    have "c ! i = (add_camera_offset ^^ (l + k)) (a ! i)"
      by (simp add: l k funpow_add)
    then show ?thesis ..
  qed
  with len show ?thesis by (simp add: offsets_added_def)
qed

lemma offsets_added_add_offset_at: "offsets_added s (add_offset_at a s)"
proof -
  have "\<exists>k. add_offset_at a s ! i = (add_camera_offset ^^ k) (s ! i)" if "i < length s" for i
  proof (cases "i = a")
    case True
    with that have "add_offset_at a s ! i = (add_camera_offset ^^ 1) (s ! i)"
      by (simp add: add_offset_at_def)
    then show ?thesis ..
  next
    case False
    then have "add_offset_at a s ! i = (add_camera_offset ^^ 0) (s ! i)"
      by (simp add: add_offset_at_def)
    then show ?thesis ..
  qed
  then show ?thesis by (simp add: offsets_added_def add_offset_at_def)
qed

lemma offsets_added_hand_out:
  assumes "hands_out_arrays src" and "t < src_getNTimesteps src"
    and "src_getNTimesteps src \<le> length s"
  shows "offsets_added s (snd (src_getOdomAtTimestep src t s))"
    and "fst (src_getOdomAtTimestep src t s) < length (snd (src_getOdomAtTimestep src t s))"
proof -
  obtain a s' where h: "src_getOdomAtTimestep src t s = (a, s')"
    by (cases "src_getOdomAtTimestep src t s")
  from assms(1) [unfolded hands_out_arrays_def, rule_format, of t s] assms(2,3) h have a: "a < length s'" and len: "length s \<le> length s'"
    and tk: "take (length s) s' = s"
    by simp_all
  have "s' ! i = (add_camera_offset ^^ 0) (s ! i)" if "i < length s" for i
    using that tk by (metis funpow_0 nth_take)
  then have "offsets_added s s'"
    using len unfolding offsets_added_def by blast
  with h a show "offsets_added s (snd (src_getOdomAtTimestep src t s))"
    and "fst (src_getOdomAtTimestep src t s) < length (snd (src_getOdomAtTimestep src t s))"
    by simp_all
qed

lemma length_add_offset_at [simp]: "length (add_offset_at a s) = length s"
  by (simp add: add_offset_at_def)

lemma offsets_added_length: "offsets_added a b \<Longrightarrow> length a \<le> length b"
  by (simp add: offsets_added_def)

lemma offsets_added_read:
  assumes "hands_out_arrays src" and "t < src_getNTimesteps src"
    and "src_getNTimesteps src \<le> length s"
    and "src_getOdomAtTimestep src t s = (a, s1)"
  shows "offsets_added s (add_offset_at a s1)" and "a < length s1"
  using offsets_added_hand_out [OF assms(1,2,3)] assms(4)
    offsets_added_trans [OF _ offsets_added_add_offset_at]
  by simp_all

lemma past_loop_on_offsets:
  assumes src: "hands_out_arrays src" and t: "timestep < src_getNTimesteps src"
  shows "src_getNTimesteps src \<le> length s \<Longrightarrow>
    offsets_added s
      (snd (past_loop_on src cv H K n d ps timestep cur hs s tps))"
proof (induction hs arbitrary: s tps)
  case Nil
  then show ?case by (simp add: offsets_added_refl)
next
  case (Cons h hs)
  show ?case
  proof (cases "int timestep - int h < 0")
    case True
    with Cons show ?thesis by simp
  next
    case False
    obtain a s1 where h: "src_getOdomAtTimestep src (timestep - h) s = (a, s1)"
      by (cases "src_getOdomAtTimestep src (timestep - h) s")
    let ?s2 = "add_offset_at a s1"
    from t have "timestep - h < src_getNTimesteps src" by simp
    from offsets_added_read(1) [OF src this Cons.prems h]
    have 1: "offsets_added s ?s2" .
    then have "src_getNTimesteps src \<le> length ?s2"
      using Cons.prems offsets_added_length by fastforce
    then have 2: "offsets_added s
        (snd (past_loop_on src cv H K n d ps timestep cur hs ?s2 tps'))" for tps'
      using offsets_added_trans [OF 1 Cons.IH] by simp
    show ?thesis
      using False h 1 2 by (simp add: Let_def split: sum.splits option.splits)
  qed
qed

lemma process_timestep_on_offsets:
  assumes src: "hands_out_arrays src" and t: "timestep < src_getNTimesteps src"
    and len: "src_getNTimesteps src \<le> length s"
    and h: "src_getOdomAtTimestep src timestep s = (a, s1)"
  shows "offsets_added (add_offset_at a s1)
           (snd (process_timestep_on src cv H K n d N ps timestep s))"
proof -
  have "offsets_added s (add_offset_at a s1)"
    by (rule offsets_added_read(1) [OF src t len h])
  then have "src_getNTimesteps src \<le> length (add_offset_at a s1)"
    using len offsets_added_length by fastforce
  from past_loop_on_offsets [OF src t this] h show ?thesis
    by (simp add: process_timestep_on_def Let_def)
qed

lemma timestep_loop_on_offsets:
  assumes src: "hands_out_arrays src"
  shows "\<forall>t \<in> set ts. t < src_getNTimesteps src \<Longrightarrow> src_getNTimesteps src \<le> length s \<Longrightarrow>
    offsets_added s (snd (timestep_loop_on src cv H K n d N ps ts s acc))"
proof (induction ts arbitrary: s acc)
  case Nil
  then show ?case by (simp add: offsets_added_refl)
next
  case (Cons t ts)
  from Cons.prems have t: "t < src_getNTimesteps src" by simp
  obtain a s1 where h: "src_getOdomAtTimestep src t s = (a, s1)"
    by (cases "src_getOdomAtTimestep src t s")
  obtain r s2 where pt: "process_timestep_on src cv H K n d N ps t s = (r, s2)"
    by (cases "process_timestep_on src cv H K n d N ps t s")
  have "offsets_added (add_offset_at a s1) s2"
    using process_timestep_on_offsets [OF src t Cons.prems(2) h, of cv H K n d N ps] pt
    by simp
  with offsets_added_read(1) [OF src t Cons.prems(2) h]
  have 1: "offsets_added s s2" by (rule offsets_added_trans)
  show ?case
  proof (cases r)
    case (Inl e)
    with pt 1 show ?thesis by simp
  next
    case (Inr tps)
    from 1 Cons.prems(2) have "src_getNTimesteps src \<le> length s2"
      using offsets_added_length by fastforce
    with Cons.prems(1) have "offsets_added s2
        (snd (timestep_loop_on src cv H K n d N ps ts s2 (acc @ [tps])))"
      by (intro Cons.IH) simp_all
    with 1 have "offsets_added s
        (snd (timestep_loop_on src cv H K n d N ps ts s2 (acc @ [tps])))"
      by (rule offsets_added_trans)
    with pt Inr show ?thesis by simp
  qed
qed

lemma translation_x_funpow:
  "translation_x ((add_camera_offset ^^ k) p) = translation_x p + real k * 0.2286"
  by (induction k) (simp_all add: translation_x_add_camera_offset algebra_simps)

lemma rot_block_funpow: "rot_block ((add_camera_offset ^^ k) p) = rot_block p"
  by (induction k) (simp_all add: rot_block_add_camera_offset)

lemma bottom_row_funpow: "bottom_row ((add_camera_offset ^^ k) p) = bottom_row p"
  by (induction k) (simp_all add: bottom_row_add_camera_offset)

lemma funpow_add_camera_offset_neq: "0 < k \<Longrightarrow> (add_camera_offset ^^ k) p \<noteq> p"
proof
  assume "0 < k" and "(add_camera_offset ^^ k) p = p"
  then have "translation_x p + real k * 0.2286 = translation_x p"
    using translation_x_funpow [of k p] by simp
  with \<open>0 < k\<close> show False by simp
qed

text \<open>
  C2, as the claim states it, fails: the pose matrix \<open>getOdomAtTimestep\<close> returns is
  written.  With two timesteps and history size \<open>1\<close> the sampler asks for the pose of
  timestep \<open>1\<close>.  The data source that returns the array it keeps returns the array at
  address \<open>1\<close>, and after the run that array has the camera offset in its translation
  column; the data source that returns a copy returns the new array at address \<open>2\<close>,
  and after the run it is that array which has the offset, while the two arrays the data
  source keeps are as they were.
\<close>

theorem returned_pose_is_written:
  "src_getOdomAtTimestep (stored_source 2 (\<lambda>t. t)) 1 [eye4, eye4] = (1, [eye4, eye4])
   \<and> snd (ComputeVicRegData_on (stored_source 2 (\<lambda>t. t)) (shifting_cv 0) eye3 eye3 (0, 0, 1) 1
             1 (128, 128) [eye4, eye4])
       = [eye4, add_camera_offset eye4]
   \<and> snd (ComputeVicRegData_on (stored_source 2 (\<lambda>t. t)) (shifting_cv 0) eye3 eye3 (0, 0, 1) 1
             1 (128, 128) [eye4, eye4]) ! 1
       \<noteq> [eye4, eye4] ! 1
   \<and> src_getOdomAtTimestep (copying_source 2 (\<lambda>t. t)) 1 [eye4, eye4]
       = (2, [eye4, eye4, eye4])
   \<and> snd (ComputeVicRegData_on (copying_source 2 (\<lambda>t. t)) (shifting_cv 0) eye3 eye3 (0, 0, 1) 1
             1 (128, 128) [eye4, eye4])
       = [eye4, eye4, add_camera_offset eye4]
   \<and> snd (ComputeVicRegData_on (copying_source 2 (\<lambda>t. t)) (shifting_cv 0) eye3 eye3 (0, 0, 1) 1
             1 (128, 128) [eye4, eye4]) ! 2
       \<noteq> [eye4, eye4, eye4] ! 2"
  by (simp add: copying_source_def ComputeVicRegData_on_def
      process_timestep_on_def add_offset_at_def Let_def add_camera_offset_neq
      numeral_2_eq_2 upt_conv_Cons)

text \<open>
  C2, amended.  Take a data source as \<open>hands_out_arrays\<close> asks, a store that holds at
  least as many arrays as there are timesteps, and a history size smaller than the number
  of timesteps, so that there is a timestep to process.  Whatever the collaborators, the
  calibration and the outcome of the run, when the sampler is done the array that
  \<open>getOdomAtTimestep\<close> returned for the first timestep processed is what it was when it
  was returned with the camera offset added at least once, so it is not unchanged; and
  every array that was in the store before the run is what it was with the camera offset
  added some number of times, so its rotation block and its bottom row are unchanged.
\<close>

theorem ComputeVicRegData_writes_handed_out_pose:
  assumes src: "hands_out_arrays src"
    and N: "history_size < src_getNTimesteps src"
    and len: "src_getNTimesteps src \<le> length store"
    and h: "src_getOdomAtTimestep src history_size store = (cur_rt, store1)"
    and out: "out = snd (ComputeVicRegData_on src cv H K n d history_size ps store)"
  shows "(\<exists>k>0. out ! cur_rt = (add_camera_offset ^^ k) (store1 ! cur_rt))
     \<and> out ! cur_rt \<noteq> store1 ! cur_rt
     \<and> (\<forall>i < length store. \<exists>k. out ! i = (add_camera_offset ^^ k) (store ! i))
     \<and> (\<forall>i < length store. rot_block (out ! i) = rot_block (store ! i)
                            \<and> bottom_row (out ! i) = bottom_row (store ! i))"
proof -
  let ?n = "src_getNTimesteps src"
  let ?s2 = "add_offset_at cur_rt store1"
  from N have upt: "[history_size..<?n] = history_size # [Suc history_size..<?n]"
    by (simp add: upt_conv_Cons)
  have a: "cur_rt < length store1"
    by (rule offsets_added_read(2) [OF src N len h])
  have s_s2: "offsets_added store ?s2"
    by (rule offsets_added_read(1) [OF src N len h])
  obtain r s3 where pt:
    "process_timestep_on src cv H K n d history_size ps history_size store = (r, s3)"
    by (cases "process_timestep_on src cv H K n d history_size ps history_size store")
  have s2_s3: "offsets_added ?s2 s3"
    using process_timestep_on_offsets [OF src N len h, of cv H K n d history_size ps] pt
    by simp
  have s3_out: "offsets_added s3 out"
  proof (cases r)
    case (Inl e)
    with pt upt out show ?thesis
      by (simp add: ComputeVicRegData_on_def offsets_added_refl)
  next
    case (Inr tps)
    with pt upt out have o: "out = snd (timestep_loop_on src cv H K n d history_size ps
        [Suc history_size..<?n] s3 [tps])"
      by (simp add: ComputeVicRegData_on_def)
    from offsets_added_length [OF offsets_added_trans [OF s_s2 s2_s3]] len
    have "?n \<le> length s3" by simp
    then show ?thesis
      unfolding o by (intro timestep_loop_on_offsets [OF src]) simp_all
  qed
  from offsets_added_trans [OF s2_s3 s3_out] have s2_out: "offsets_added ?s2 out" .
  from offsets_added_trans [OF s_s2 s2_out] have s_out: "offsets_added store out" .
  obtain k where "out ! cur_rt = (add_camera_offset ^^ k) (?s2 ! cur_rt)"
    using s2_out a unfolding offsets_added_def by auto
  with a have k: "out ! cur_rt = (add_camera_offset ^^ Suc k) (store1 ! cur_rt)"
    by (simp add: add_offset_at_def funpow_swap1)
  then have 1: "\<exists>k>0. out ! cur_rt = (add_camera_offset ^^ k) (store1 ! cur_rt)"
    by blast
  have 2: "out ! cur_rt \<noteq> store1 ! cur_rt"
    unfolding k by (rule funpow_add_camera_offset_neq) simp
  have 3: "\<forall>i < length store. \<exists>k. out ! i = (add_camera_offset ^^ k) (store ! i)"
    using s_out by (simp add: offsets_added_def)
  then have 4: "\<forall>i < length store. rot_block (out ! i) = rot_block (store ! i)
      \<and> bottom_row (out ! i) = bottom_row (store ! i)"
    by (metis rot_block_funpow bottom_row_funpow)
  from 1 2 3 4 show ?thesis by blast
qed

theorem ComputeVicRegData_writes_handed_out_pose_witness:
  "hands_out_arrays (stored_source 4 (\<lambda>t. t))
   \<and> src_getOdomAtTimestep (stored_source 4 (\<lambda>t. t)) 2 [eye4, eye4, eye4, eye4]
       = (2, [eye4, eye4, eye4, eye4])
   \<and> snd (ComputeVicRegData_on (stored_source 4 (\<lambda>t. t)) (shifting_cv 0) eye3 eye3 (0, 0, 1) 1
             2 (128, 128) [eye4, eye4, eye4, eye4]) ! 2
       \<noteq> [eye4, eye4, eye4, eye4] ! 2
   \<and> hands_out_arrays (copying_source 4 (\<lambda>t. t))
   \<and> src_getOdomAtTimestep (copying_source 4 (\<lambda>t. t)) 2 [eye4, eye4, eye4, eye4]
       = (4, [eye4, eye4, eye4, eye4, eye4])
   \<and> snd (ComputeVicRegData_on (copying_source 4 (\<lambda>t. t)) (shifting_cv 0) eye3 eye3 (0, 0, 1) 1
             2 (128, 128) [eye4, eye4, eye4, eye4]) ! 4
       \<noteq> [eye4, eye4, eye4, eye4, eye4] ! 4"
proof -
  let ?stored = "stored_source 4 (\<lambda>t. t) :: nat data_source"
  let ?copying = "copying_source 4 (\<lambda>t. t) :: nat data_source"
  let ?store = "[eye4, eye4, eye4, eye4]"
  have s: "src_getOdomAtTimestep ?stored 2 ?store = (2, ?store)"
    by simp
  have c: "src_getOdomAtTimestep ?copying 2 ?store = (4, ?store @ [eye4])"
    by (simp add: copying_source_def)
  have "snd (ComputeVicRegData_on ?stored (shifting_cv 0) eye3 eye3 (0, 0, 1) 1 2 (128, 128)
               ?store) ! 2
      \<noteq> ?store ! 2"
    using ComputeVicRegData_writes_handed_out_pose
      [OF stored_source_hands_out _ _ s refl, of "shifting_cv 0" eye3 eye3 "(0, 0, 1)" 1
        "(128, 128)"]
    by simp
  moreover have "snd (ComputeVicRegData_on ?copying (shifting_cv 0) eye3 eye3 (0, 0, 1) 1 2
               (128, 128) ?store) ! 4
      \<noteq> (?store @ [eye4]) ! 4"
    using ComputeVicRegData_writes_handed_out_pose
      [OF copying_source_hands_out _ _ c refl, of "shifting_cv 0" eye3 eye3 "(0, 0, 1)" 1
        "(128, 128)"]
    by (simp add: copying_source_def)
  ultimately show ?thesis
    using s c stored_source_hands_out [of 4 "\<lambda>t. t :: nat"]
      copying_source_hands_out [of 4 "\<lambda>t. t :: nat"]
    by simp
qed

text \<open>
  How often the offset is added depends on the data source.  With history size \<open>2\<close> and
  four timesteps, the data source that returns the arrays it keeps ends with the offset
  added twice to the pose of timestep \<open>2\<close>, once for every time that pose was asked for;
  with the data source that returns copies the four arrays it keeps are as they were.
\<close>

lemma stored_source_offsets_accumulate:
  "snd (ComputeVicRegData_on (stored_source 4 (\<lambda>t. t)) (shifting_cv 0) eye3 eye3 (0, 0, 1) 1
          2 (128, 128) [eye4, eye4, eye4, eye4])
     = [eye4, add_camera_offset eye4, add_camera_offset (add_camera_offset eye4),
        add_camera_offset eye4]"
  by code_simp

lemma copying_source_offsets:
  "snd (ComputeVicRegData_on (copying_source 4 (\<lambda>t. t)) (shifting_cv 0) eye3 eye3 (0, 0, 1) 1
          2 (128, 128) [eye4, eye4, eye4, eye4])
     = [eye4, eye4, eye4, eye4, add_camera_offset eye4, add_camera_offset eye4,
        add_camera_offset eye4, add_camera_offset eye4]"
  by code_simp

text \<open>
  The sampler on the list of the timesteps is the sampler on the store with the data
  source that returns the arrays it keeps: the same patches or the same exception, and
  the same poses at the end.
\<close>

lemma map_fst_offset_pose_in_place:
  "map fst (offset_pose_in_place t rd) = map fst rd"
proof (cases "t < length rd")
  case True
  then have "map fst (offset_pose_in_place t rd) = (map fst rd)[t := map fst rd ! t]"
    by (simp add: offset_pose_in_place_def map_update getImageAtTimestep_def)
  then show ?thesis by simp
next
  case False
  then show ?thesis by (simp add: offset_pose_in_place_def list_update_beyond)
qed

lemma map_snd_offset_pose_in_place:
  "t < length rd \<Longrightarrow> map snd (offset_pose_in_place t rd) = add_offset_at t (map snd rd)"
  by (simp add: offset_pose_in_place_def add_offset_at_def map_update getOdomAtTimestep_def)

lemma same_images:
  assumes "map fst rd' = map fst rd" and "t < length rd"
  shows "getImageAtTimestep rd t = getImageAtTimestep rd' t" and "length rd' = length rd"
proof -
  show len: "length rd' = length rd"
    using assms(1) by (rule map_eq_imp_length_eq)
  have "fst (rd ! t) = map fst rd ! t"
    using assms(2) by simp
  also have "\<dots> = map fst rd' ! t"
    by (simp only: assms(1))
  also have "\<dots> = fst (rd' ! t)"
    using assms(2) len by simp
  finally show "getImageAtTimestep rd t = getImageAtTimestep rd' t"
    by (simp add: getImageAtTimestep_def)
qed

lemma past_loop_on_stored:
  assumes "timestep < length rd"
  shows "map fst rd' = map fst rd \<Longrightarrow>
    past_loop_on (stored_source (length rd) (getImageAtTimestep rd)) cv H K n d ps timestep
        timestep hs (map snd rd') tps
      = map_prod id (map snd) (past_loop cv H K n d ps timestep hs rd' tps)"
proof (induction hs arbitrary: rd' tps)
  case Nil
  then show ?case by simp
next
  case (Cons h hs)
  show ?case
  proof (cases "int timestep - int h < 0")
    case True
    with Cons show ?thesis by simp
  next
    case False
    let ?pt = "timestep - h"
    let ?rd2 = "offset_pose_in_place ?pt rd'"
    from assms have pt_rd: "?pt < length rd" by simp
    have len: "length rd' = length rd"
      by (rule same_images(2) [OF Cons.prems assms])
    with assms have pt: "?pt < length rd'" and t: "timestep < length rd'" by simp_all
    have img: "getImageAtTimestep rd ?pt = getImageAtTimestep rd' ?pt"
      by (rule same_images(1) [OF Cons.prems pt_rd])
    have fst2: "map fst ?rd2 = map fst rd"
      using Cons.prems by (simp add: map_fst_offset_pose_in_place)
    have snd2: "add_offset_at ?pt (map snd rd') = map snd ?rd2"
      using pt by (simp add: map_snd_offset_pose_in_place)
    have rd: "map snd ?rd2 ! timestep = getOdomAtTimestep ?rd2 timestep"
      "map snd ?rd2 ! ?pt = getOdomAtTimestep ?rd2 ?pt"
      using pt t by (simp_all add: getOdomAtTimestep_def offset_pose_in_place_def)
    show ?thesis
      using False
      by (simp add: Let_def img snd2 rd Cons.IH [OF fst2] split: sum.split option.split)
  qed
qed

lemma map_fst_past_loop:
  "map fst (snd (past_loop cv H K n d ps t hs rd tps)) = map fst rd"
  by (induction hs arbitrary: rd tps)
     (simp_all add: Let_def map_fst_offset_pose_in_place split: sum.split option.split)

lemma map_fst_process_timestep:
  "map fst (snd (process_timestep cv H K n d N ps t rd)) = map fst rd"
  by (simp add: process_timestep_def Let_def map_fst_past_loop map_fst_offset_pose_in_place)

lemma process_timestep_on_stored:
  assumes "timestep < length rd" and "map fst rd' = map fst rd"
  shows "process_timestep_on (stored_source (length rd) (getImageAtTimestep rd)) cv H K n d N ps
        timestep (map snd rd')
      = map_prod id (map snd) (process_timestep cv H K n d N ps timestep rd')"
proof -
  have t: "timestep < length rd'"
    using same_images(2) [OF assms(2,1)] assms(1) by simp
  have img: "getImageAtTimestep rd timestep = getImageAtTimestep rd' timestep"
    by (rule same_images(1) [OF assms(2,1)])
  have fst2: "map fst (offset_pose_in_place timestep rd') = map fst rd"
    using assms(2) by (simp add: map_fst_offset_pose_in_place)
  have snd2: "add_offset_at timestep (map snd rd') = map snd (offset_pose_in_place timestep rd')"
    using t by (simp add: map_snd_offset_pose_in_place)
  show ?thesis
    by (simp add: process_timestep_on_def process_timestep_def Let_def img snd2
        past_loop_on_stored [OF assms(1) fst2])
qed

lemma timestep_loop_on_stored:
  shows "\<forall>t \<in> set ts. t < length rd \<Longrightarrow> map fst rd' = map fst rd \<Longrightarrow>
    timestep_loop_on (stored_source (length rd) (getImageAtTimestep rd)) cv H K n d N ps ts
        (map snd rd') acc
      = map_prod id (map snd) (timestep_loop cv H K n d N ps ts rd' acc)"
proof (induction ts arbitrary: rd' acc)
  case Nil
  then show ?case by simp
next
  case (Cons t ts)
  from Cons.prems have t: "t < length rd" and ts: "\<forall>t \<in> set ts. t < length rd"
    by simp_all
  obtain r rd2 where pt: "process_timestep cv H K n d N ps t rd' = (r, rd2)"
    by (cases "process_timestep cv H K n d N ps t rd'")
  then have on: "process_timestep_on (stored_source (length rd) (getImageAtTimestep rd))
      cv H K n d N ps t (map snd rd') = (r, map snd rd2)"
    by (simp add: process_timestep_on_stored [OF t Cons.prems(2)])
  have fst2: "map fst rd2 = map fst rd"
    using map_fst_process_timestep [of cv H K n d N ps t rd'] pt Cons.prems(2) by simp
  show ?case
  proof (cases r)
    case (Inl e)
    with pt on show ?thesis by simp
  next
    case (Inr tps)
    with pt on show ?thesis by (simp add: Cons.IH [OF ts fst2])
  qed
qed

lemma ComputeVicRegData_on_stored:
  "ComputeVicRegData_on (stored_source (getNTimesteps robot_data)
       (getImageAtTimestep robot_data)) cv H K n d N ps (map snd robot_data)
     = map_prod id (map snd) (ComputeVicRegData cv H K n d robot_data N ps)"
proof -
  have "\<forall>t \<in> set [N..<length robot_data]. t < length robot_data" by simp
  from timestep_loop_on_stored [OF this refl] show ?thesis
    by (simp add: ComputeVicRegData_on_def ComputeVicRegData_def getNTimesteps_def Let_def)
qed

section \<open>Homogeneous to cartesian conversion\<close>

text \<open>
  C8, as the claim states it, fails: \<open>hom_to_cart\<close> has no check of \<open>w\<close> and raises
  nothing.  For the point \<open>(1, 2, 0)\<close>, whose \<open>w\<close> is zero, it returns the non-finite
  quotients instead of raising \<open>DegenerateProjectionError\<close>.
\<close>

theorem hom_to_cart_zero_w:
  "hom_to_cart [[1], [2], [0]] = Inr [[NonFinite], [NonFinite]]
   \<and> hom_to_cart [[1], [2], [0]] \<noteq> Inl DegenerateProjectionError"
  by (simp add: hom_to_cart_def np_div_def)

text \<open>
  C8, amended.  On an array of the rows \<open>xs\<close>, \<open>ys\<close>, \<open>ws\<close> of equally many points the
  conversion never raises: it returns the two rows of the quotients \<open>x / w\<close> and \<open>y / w\<close>.
  For a point whose \<open>w\<close> is not zero these are the first two coordinates divided by \<open>w\<close>;
  for a point whose \<open>w\<close> is zero they are non-finite values.
\<close>

theorem hom_to_cart_divides:
  assumes "length xs = length ws" and "length ys = length ws"
  shows "hom_to_cart [xs, ys, ws] = Inr [map2 np_div xs ws, map2 np_div ys ws]
     \<and> (\<forall>i < length ws.
          map2 np_div xs ws ! i = (if ws ! i = 0 then NonFinite else Finite (xs ! i / ws ! i))
        \<and> map2 np_div ys ws ! i = (if ws ! i = 0 then NonFinite else Finite (ys ! i / ws ! i)))"
proof -
  have "hom_to_cart [xs, ys, ws] = Inr [map2 np_div xs ws, map2 np_div ys ws]"
    by (simp add: hom_to_cart_def)
  moreover have "map2 np_div xs ws ! i
      = (if ws ! i = 0 then NonFinite else Finite (xs ! i / ws ! i))"
    if "i < length ws" for i
    using that assms(1) by (simp add: np_div_def)
  moreover have "map2 np_div ys ws ! i
      = (if ws ! i = 0 then NonFinite else Finite (ys ! i / ws ! i))"
    if "i < length ws" for i
    using that assms(2) by (simp add: np_div_def)
  ultimately show ?thesis by blast
qed

theorem hom_to_cart_divides_witness:
  "hom_to_cart [[6, 1], [8, 5], [2, 0]] = Inr [[Finite 3, NonFinite], [Finite 4, NonFinite]]"
  using hom_to_cart_divides [of "[6, 1]" "[2, 0]" "[8, 5]"]
  by (simp add: np_div_def)

section \<open>Trimming the mosaic\<close>

lemma find_crop_row_none:
  "\<forall>r < n. \<not> has_content g thr (img ! r) \<Longrightarrow> find_crop_row g thr img (rev [0..<n]) c = c"
  by (induction n) simp_all

lemma find_crop_row_some:
  "\<exists>r < n. has_content g thr (img ! r)
   \<Longrightarrow> \<exists>k < n. find_crop_row g thr img (rev [0..<n]) c = Suc k
         \<and> has_content g thr (img ! k)
         \<and> (\<forall>r. k < r \<and> r < n \<longrightarrow> \<not> has_content g thr (img ! r))"
proof (induction n)
  case 0
  then show ?case by simp
next
  case (Suc n)
  show ?case
  proof (cases "has_content g thr (img ! n)")
    case True
    then show ?thesis by auto
  next
    case False
    with Suc.prems have "\<exists>r < n. has_content g thr (img ! r)"
      using less_Suc_eq by auto
    from Suc.IH [OF this] obtain k where k: "k < n"
      "find_crop_row g thr img (rev [0..<n]) c = Suc k" "has_content g thr (img ! k)"
      "\<forall>r. k < r \<and> r < n \<longrightarrow> \<not> has_content g thr (img ! r)" by blast
    have "\<forall>r. k < r \<and> r < Suc n \<longrightarrow> \<not> has_content g thr (img ! r)"
      using k(4) False less_Suc_eq by auto
    with k False show ?thesis
      by (intro exI [of _ k]) simp
  qed
qed

lemma crop_bottom_to_content_spec:
  "(\<exists>k \<le> length img. crop_bottom_to_content g img thr = take k img
        \<and> list_all (\<lambda>row. \<not> has_content g thr row) (drop k img))
   \<and> (list_ex (has_content g thr) img \<longrightarrow>
        crop_bottom_to_content g img thr \<noteq> []
        \<and> has_content g thr (last (crop_bottom_to_content g img thr)))
   \<and> (\<not> list_ex (has_content g thr) img \<longrightarrow> crop_bottom_to_content g img thr = img)"
proof (cases "list_ex (has_content g thr) img")
  case False
  then have none: "\<forall>r < length img. \<not> has_content g thr (img ! r)"
    by (auto simp: list_ex_iff)
  have "crop_bottom_to_content g img thr = img"
    by (simp add: crop_bottom_to_content_def Let_def find_crop_row_none [OF none])
  with False show ?thesis
    by (auto intro!: exI [of _ "length img"])
next
  case True
  then have "\<exists>r < length img. has_content g thr (img ! r)"
    by (auto simp: list_ex_iff in_set_conv_nth)
  from find_crop_row_some [OF this, of "length img"] obtain k where k: "k < length img"
    "find_crop_row g thr img (rev [0..<length img]) (length img) = Suc k"
    "has_content g thr (img ! k)"
    "\<forall>r. k < r \<and> r < length img \<longrightarrow> \<not> has_content g thr (img ! r)" by blast
  have crop: "crop_bottom_to_content g img thr = take (Suc k) img"
    by (simp add: crop_bottom_to_content_def Let_def k(2))
  have ne: "take (Suc k) img \<noteq> []" using k(1) by auto
  have "last (take (Suc k) img) = img ! k"
    using k(1) by (simp add: take_Suc_conv_app_nth)
  moreover have "list_all (\<lambda>row. \<not> has_content g thr row) (drop (Suc k) img)"
    using k(4) by (auto simp: list_all_length)
  ultimately show ?thesis
    using crop ne k(1,3) True
    by (auto intro!: exI [of _ "Suc k"])
qed

text \<open>
  C10, as the claim states it, fails on a mosaic without content: when no row has a pixel
  above the threshold, \<open>crop_row\<close> keeps its initial value, the height, and the mosaic is
  returned whole, so its last row has no pixel above the threshold.
\<close>

theorem mosaic_all_black:
  "plot_BEV_full black_cv id [[0]] eye3 (1, 1) = Inr (replicate 12 (replicate 14 0))
   \<and> \<not> has_content id 1 (last (replicate 12 (replicate 14 (0 :: nat))))"
  by code_simp

text \<open>
  C10, amended.  The mosaic \<open>plot_BEV_full\<close> returns is the stitched raster cut after some
  row, and every row cut off has all its pixels at or below the threshold \<open>1\<close>.  When the
  stitched raster has a row with a pixel above the threshold, the mosaic ends with the
  last such row: it is not empty and its last row has a pixel above the threshold.  When
  it has none, the mosaic is the stitched raster itself.
\<close>

theorem mosaic_trimmed:
  assumes "stitch_BEV cv img H patch_size = Inr stitched"
  shows "\<exists>mosaic. plot_BEV_full cv to_gray img H patch_size = Inr mosaic
     \<and> (\<exists>k \<le> length stitched. mosaic = take k stitched
           \<and> list_all (\<lambda>row. \<not> has_content to_gray 1 row) (drop k stitched))
     \<and> (list_ex (has_content to_gray 1) stitched \<longrightarrow>
           mosaic \<noteq> [] \<and> has_content to_gray 1 (last mosaic))
     \<and> (\<not> list_ex (has_content to_gray 1) stitched \<longrightarrow> mosaic = stitched)"
proof -
  have "plot_BEV_full cv to_gray img H patch_size
      = Inr (crop_bottom_to_content to_gray stitched 1)"
    using assms by (simp add: plot_BEV_full_def)
  then show ?thesis
    using crop_bottom_to_content_spec [of stitched to_gray 1] by simp
qed

lemma banded_stitch:
  "stitch_BEV banded_cv [[0]] eye3 (1, 1)
     = Inr (replicate 10 (replicate 14 5) @ replicate 2 (replicate 14 0))"
  by code_simp

lemma banded_mosaic:
  "plot_BEV_full banded_cv id [[0]] eye3 (1, 1) = Inr (replicate 10 (replicate 14 5))"
  by code_simp

theorem mosaic_trimmed_witness:
  "stitch_BEV banded_cv [[0]] eye3 (1, 1)
     = Inr (replicate 10 (replicate 14 5) @ replicate 2 (replicate 14 0))
   \<and> plot_BEV_full banded_cv id [[0]] eye3 (1, 1) = Inr (replicate 10 (replicate 14 5))
   \<and> has_content id 1 (last (replicate 10 (replicate 14 (5 :: nat))))"
proof -
  have "has_content id 1 (last (replicate 10 (replicate 14 (5 :: nat))))"
    by code_simp
  then show ?thesis
    using mosaic_trimmed [OF banded_stitch, of id] banded_stitch banded_mosaic by simp
qed

section \<open>Tile-width estimation\<close>

lemma row_loop_fold:
  "row_loop row is cb = fold (\<lambda>d a. max a d) (map (\<lambda>i. distance2 (row ! i) (row ! (i + 1))) is) cb"
  by (induction "is" arbitrary: cb) (simp_all add: Let_def)

lemma consecutive_distances_nth:
  "map (\<lambda>i. distance2 (row ! i) (row ! Suc i)) [0..<length row - Suc 0]
     = consecutive_distances row"
  by (rule nth_equalityI) (auto simp: consecutive_distances_def nth_tl)

lemma rows_loop_fold:
  "rows_loop rows cb
     = fold (\<lambda>d a. max a d) (concat (map (\<lambda>row. consecutive_distances (sort_key fst row)) rows)) cb"
  by (induction rows arbitrary: cb)
     (simp_all add: Let_def row_loop_fold consecutive_distances_nth)

lemma fold_max_Max: "fold (\<lambda>d a. max a d) ds (cb :: real) = Max (insert cb (set ds))"
proof (induction ds arbitrary: cb)
  case Nil
  then show ?case by simp
next
  case (Cons d ds)
  have "Max (insert (max cb d) (set ds)) = Max (insert cb (insert d (set ds)))"
  proof (cases "set ds = {}")
    case True
    then show ?thesis by (simp add: max.commute)
  next
    case False
    then show ?thesis by (simp add: max.assoc max.commute)
  qed
  with Cons show ?case by simp
qed

lemma distance2_nonneg: "0 \<le> distance2 p q"
  by (simp add: distance2_def)

lemma consecutive_distances_nonneg: "d \<in> set (consecutive_distances row) \<Longrightarrow> 0 \<le> d"
  by (auto simp: consecutive_distances_def distance2_nonneg dest!: set_zip_leftD
      simp: in_set_zip)

lemma row_spacings_nonneg: "d \<in> set (row_spacings corners cols) \<Longrightarrow> 0 \<le> d"
  by (auto simp: row_spacings_def consecutive_distances_nonneg)

lemma length_slice_row:
  assumes "0 < k" and "i < length xs div k"
  shows "length (slice xs (i * k) ((i + 1) * k)) = k"
proof -
  have "Suc i \<le> length xs div k" using assms(2) by simp
  then have "Suc i * k \<le> length xs div k * k" by (rule mult_le_mono1)
  also have "\<dots> \<le> length xs" by simp
  finally have "i * k + k \<le> length xs" by simp
  then show ?thesis by (simp add: slice_def)
qed

lemma corner_rows_length:
  assumes "0 < cols" and "row \<in> set (corner_rows corners cols)"
  shows "length row = cols"
  using assms length_slice_row [of cols _ "sort_key snd corners"]
  by (auto simp: corner_rows_def Let_def)

lemma concat_slices:
  "concat (map (\<lambda>i. slice xs (i * k) ((i + 1) * k)) [0..<n]) = take (n * k) xs"
proof (induction n)
  case 0
  then show ?case by simp
next
  case (Suc n)
  have "take (Suc n * k) xs = take (n * k + k) xs"
    by (simp add: add.commute)
  also have "\<dots> = take (n * k) xs @ take k (drop (n * k) xs)"
    by (rule take_add)
  also have "take k (drop (n * k) xs) = slice xs (n * k) ((n + 1) * k)"
    by (simp add: slice_def)
  finally show ?case using Suc by simp
qed

text \<open>
  C9.  For every corner set and every positive \<open>cb_cols\<close>, the estimated tile width is the
  maximum of the distances between consecutive corners within a row, taken over all rows
  (and \<open>0\<close> when there is no pair of consecutive corners).  The rows are the groups of
  \<open>cb_cols\<close> corners, in order, of the corners sorted on the vertical coordinate, each
  group then sorted horizontally; together they hold the first
  \<open>(n div cb_cols) * cb_cols\<close> of the \<open>n\<close> sorted corners.
\<close>

theorem chessboard_tile_width_is_max:
  assumes "0 < cb_cols"
  shows "chessboard_tile_width corners cb_cols
           = Inr (Max (insert 0 (set (row_spacings corners cb_cols))))
     \<and> (row_spacings corners cb_cols \<noteq> [] \<longrightarrow>
          chessboard_tile_width corners cb_cols = Inr (Max (set (row_spacings corners cb_cols))))
     \<and> (\<forall>row \<in> set (sorted_rows corners cb_cols).
          length row = cb_cols \<and> sorted (map fst row))
     \<and> concat (corner_rows corners cb_cols)
          = take (length corners div cb_cols * cb_cols) (sort_key snd corners)
     \<and> sorted (map snd (sort_key snd corners))
     \<and> mset (sort_key snd corners) = mset corners"
proof -
  let ?S = "row_spacings corners cb_cols"
  have w: "chessboard_tile_width corners cb_cols = Inr (Max (insert 0 (set ?S)))"
    using assms
    by (simp add: chessboard_tile_width_def rows_loop_fold fold_max_Max row_spacings_def
        sorted_rows_def comp_def)
  have "Max (insert 0 (set ?S)) = Max (set ?S)" if ne: "?S \<noteq> []"
  proof -
    obtain d where d: "d \<in> set ?S" using ne by (cases ?S) auto
    then have "0 \<le> d" by (rule row_spacings_nonneg)
    have "0 \<le> Max (set ?S)"
      using d \<open>0 \<le> d\<close> by (meson List.finite_set Max_ge order_trans)
    then show ?thesis using ne by (simp add: max_def)
  qed
  with w have w': "?S \<noteq> [] \<longrightarrow> chessboard_tile_width corners cb_cols = Inr (Max (set ?S))"
    by simp
  have rows: "\<forall>row \<in> set (sorted_rows corners cb_cols).
      length row = cb_cols \<and> sorted (map fst row)"
    using corner_rows_length [OF assms] by (auto simp: sorted_rows_def)
  have "concat (corner_rows corners cb_cols)
      = take (length (sort_key snd corners) div cb_cols * cb_cols) (sort_key snd corners)"
    unfolding corner_rows_def Let_def by (rule concat_slices)
  then have cat: "concat (corner_rows corners cb_cols)
      = take (length corners div cb_cols * cb_cols) (sort_key snd corners)"
    by simp
  from w w' rows cat show ?thesis by simp
qed

lemma distance2_same_row: "distance2 (x1, y) (x2, y) = \<bar>x1 - x2\<bar>"
  by (simp add: distance2_def)

lemma example_spacings: "row_spacings [(4, 1), (0, 0), (3, 0), (0, 1)] 2 = [3, 4]"
  by (simp add: row_spacings_def sorted_rows_def corner_rows_def slice_def Let_def
      consecutive_distances_def distance2_same_row upt_conv_Cons)

theorem chessboard_tile_width_is_max_witness:
  "chessboard_tile_width [(4, 1), (0, 0), (3, 0), (0, 1)] 2 = Inr 4
   \<and> row_spacings [(4, 1), (0, 0), (3, 0), (0, 1)] 2 = [3, 4]"
  using chessboard_tile_width_is_max [of 2 "[(4, 1), (0, 0), (3, 0), (0, 1)]"]
  by (simp add: example_spacings)

text \<open>
  The constructor keeps \<open>int\<close> of the estimate (line 24): the attribute \<open>cb_tile_width\<close> of
  a constructed object is the maximum spacing truncated to an integer.
\<close>

lemma calibrator_stores_truncated_width:
  assumes "HomographyFromChessboardImage cv config img cb_rows cb_cols = Inr obj"
  shows "chessboard_tile_width (self_corners obj) cb_cols
           = Inr (Max (insert 0 (set (row_spacings (self_corners obj) cb_cols))))
     \<and> self_cb_tile_width obj
           = py_int (Max (insert 0 (set (row_spacings (self_corners obj) cb_cols))))"
proof -
  obtain ret cs where det: "findChessboardCorners cv (cvtColor cv img) (cb_cols, cb_rows) = (ret, cs)"
    by (cases "findChessboardCorners cv (cvtColor cv img) (cb_cols, cb_rows)")
  with assms obtain corners where cs: "cs = Some corners"
    by (cases cs) (simp_all add: HomographyFromChessboardImage_def)
  from assms det cs obtain w where w: "chessboard_tile_width corners cb_cols = Inr w"
    by (cases "chessboard_tile_width corners cb_cols")
       (simp_all add: HomographyFromChessboardImage_def)
  then have pos: "0 < cb_cols"
    by (auto simp: chessboard_tile_width_def split: if_splits)
  from assms det cs w have "self_corners obj = corners \<and> self_cb_tile_width obj = py_int w"
    by (auto simp: HomographyFromChessboardImage_def Let_def split: sum.splits prod.splits)
  moreover have "chessboard_tile_width corners cb_cols
      = Inr (Max (insert 0 (set (row_spacings corners cb_cols))))"
    using pos
    by (simp add: chessboard_tile_width_def rows_loop_fold fold_max_Max row_spacings_def
        sorted_rows_def comp_def)
  ultimately show ?thesis using w by simp
qed

section \<open>The model chessboard\<close>

lemma inner_loop_length:
  "length (fold (\<lambda>col m. m[b + col := f col]) [0..<n] m) = length m"
  by (induction n) simp_all

lemma inner_loop_nth:
  "i < length m \<Longrightarrow>
   fold (\<lambda>col m. m[b + col := f col]) [0..<n] m ! i
     = (if b \<le> i \<and> i < b + n then f (i - b) else m ! i)"
proof (induction n)
  case 0
  then show ?case by auto
next
  case (Suc n)
  let ?m = "fold (\<lambda>col m. m[b + col := f col]) [0..<n] m"
  have len: "i < length ?m" using Suc.prems by (simp add: inner_loop_length)
  show ?case
  proof (cases "i = b + n")
    case True
    with len show ?thesis by simp
  next
    case False
    then have "?m[b + n := f n] ! i = ?m ! i" by simp
    also have "\<dots> = (if b \<le> i \<and> i < b + n then f (i - b) else m ! i)"
      by (rule Suc.IH [OF Suc.prems])
    finally show ?thesis using False by auto
  qed
qed

lemma grid_loops_length: "length (grid_loops rows cols f m) = length m"
  unfolding grid_loops_def by (induction rows) (simp_all add: inner_loop_length)

lemma grid_loops_nth:
  "i < length m \<Longrightarrow>
   grid_loops rows cols f m ! i
     = (if i < rows * cols then f (i div cols) (i mod cols) else m ! i)"
proof (induction rows)
  case 0
  then show ?case by (simp add: grid_loops_def)
next
  case (Suc rows)
  let ?prev = "grid_loops rows cols f m"
  have step: "grid_loops (Suc rows) cols f m
      = fold (\<lambda>col m. m[rows * cols + col := f rows col]) [0..<cols] ?prev"
    by (simp add: grid_loops_def)
  have len: "i < length ?prev" using Suc.prems by (simp add: grid_loops_length)
  have nth: "grid_loops (Suc rows) cols f m ! i
      = (if rows * cols \<le> i \<and> i < rows * cols + cols then f rows (i - rows * cols)
         else ?prev ! i)"
    unfolding step by (rule inner_loop_nth [OF len])
  show ?case
  proof (cases "rows * cols \<le> i \<and> i < rows * cols + cols")
    case True
    then have "i div cols = rows" "i mod cols = i - rows * cols"
      by (auto simp: div_nat_eqI mod_nat_eqI add.commute mult.commute)
    with True nth show ?thesis by simp
  next
    case False
    with nth have "grid_loops (Suc rows) cols f m ! i = ?prev ! i"
      by (simp only: if_False)
    with False Suc show ?thesis by auto
  qed
qed

lemma grid_loops_replicate:
  "grid_loops rows cols f (replicate (rows * cols) z)
     = map (\<lambda>i. f (i div cols) (i mod cols)) [0..<rows * cols]"
  by (rule nth_equalityI) (simp_all add: grid_loops_length grid_loops_nth)

lemma sum_nat_below: "(\<Sum>j<k. real j) = real k * (real k - 1) / 2"
  by (induction k) (simp_all add: field_simps)

lemma sum_centred: "(\<Sum>j<k. (real j + 1 / 2 - real k / 2) * t) = 0"
proof -
  have "(\<Sum>j<k. (real j + 1 / 2 - real k / 2) * t)
      = (\<Sum>j<k. real j + (1 / 2 - real k / 2)) * t"
    by (simp add: sum_distrib_right add_diff_eq)
  also have "(\<Sum>j<k. real j + (1 / 2 - real k / 2))
      = (\<Sum>j<k. real j) + real k * (1 / 2 - real k / 2)"
    by (simp add: sum.distrib)
  also have "\<dots> = 0"
    by (simp add: sum_nat_below field_simps)
  finally show ?thesis by simp
qed

lemma sum_block_mod:
  "(\<Sum>i = m * k..<m * k + k. g (i mod k)) = (\<Sum>j<k. g j)" for g :: "nat \<Rightarrow> real"
proof -
  have "(\<Sum>i = m * k..<m * k + k. g (i mod k)) = (\<Sum>i = 0 + m * k..<k + m * k. g (i mod k))"
    by (simp add: add.commute)
  also have "\<dots> = (\<Sum>j = 0..<k. g ((j + m * k) mod k))"
    by (rule sum.shift_bounds_nat_ivl)
  also have "\<dots> = (\<Sum>j = 0..<k. g j)"
    by (rule sum.cong) simp_all
  finally show ?thesis by (simp add: lessThan_atLeast0)
qed

lemma sum_block_div:
  "(\<Sum>i = m * k..<m * k + k. g (i div k)) = real k * g m" for g :: "nat \<Rightarrow> real"
proof -
  have "(\<Sum>i = m * k..<m * k + k. g (i div k)) = (\<Sum>i = 0 + m * k..<k + m * k. g (i div k))"
    by (simp add: add.commute)
  also have "\<dots> = (\<Sum>j = 0..<k. g ((j + m * k) div k))"
    by (rule sum.shift_bounds_nat_ivl)
  also have "\<dots> = (\<Sum>j = 0..<k. g m)"
    by (rule sum.cong) simp_all
  finally show ?thesis by simp
qed

lemma sum_grid_cols:
  "(\<Sum>i<n * k. (real (i mod k) + 1 / 2 - real k / 2) * t) = 0"
proof -
  have "(\<Sum>i<n * k. (real (i mod k) + 1 / 2 - real k / 2) * t)
      = (\<Sum>m<n. \<Sum>i = m * k..<m * k + k. (real (i mod k) + 1 / 2 - real k / 2) * t)"
    by (rule sum.nat_group [symmetric])
  also have "\<dots> = (\<Sum>m<n. \<Sum>j<k. (real j + 1 / 2 - real k / 2) * t)"
    by (simp only: sum_block_mod [where g = "\<lambda>j. (real j + 1 / 2 - real k / 2) * t"])
  finally show ?thesis by (simp add: sum_centred)
qed

lemma sum_grid_rows:
  "(\<Sum>i<n * k. (real (i div k) + 1 / 2 - real n / 2) * t) = 0"
proof -
  have "(\<Sum>i<n * k. (real (i div k) + 1 / 2 - real n / 2) * t)
      = (\<Sum>m<n. \<Sum>i = m * k..<m * k + k. (real (i div k) + 1 / 2 - real n / 2) * t)"
    by (rule sum.nat_group [symmetric])
  also have "\<dots> = (\<Sum>m<n. real k * ((real m + 1 / 2 - real n / 2) * t))"
    by (simp only: sum_block_div [where g = "\<lambda>j. (real j + 1 / 2 - real n / 2) * t"])
  also have "\<dots> = real k * (\<Sum>m<n. (real m + 1 / 2 - real n / 2) * t)"
    by (simp add: sum_distrib_left)
  finally show ?thesis by (simp add: sum_centred)
qed

lemma sum_list_upt: "sum_list (map g [0..<n]) = (\<Sum>i<n. g i)" for g :: "nat \<Rightarrow> real"
  by (simp add: interv_sum_list_conv_sum_set_nat lessThan_atLeast0)

lemma centred_grid:
  "compute_model_chessboard_2d rows cols t True
     = map (\<lambda>i. ((real (i mod cols) + 1 / 2 - real cols / 2) * t,
                  (real (i div cols) + 1 / 2 - real rows / 2) * t)) [0..<rows * cols]"
  by (simp add: compute_model_chessboard_2d_def Let_def grid_loops_replicate)

text \<open>
  C6.  For all positive \<open>rows\<close> and \<open>cols\<close> and every tile width, the centred model
  chessboard has exactly \<open>rows * cols\<close> points; they are in row-major order, the point of
  \<open>(row, col)\<close> at index \<open>row * cols + col\<close>; the mean of the points is \<open>(0, 0)\<close>; two
  consecutive points of a row are \<open>tile_width\<close> apart horizontally, in particular point
  \<open>1\<close> and point \<open>0\<close> when there are at least two columns; and at tile width one the
  generator is \<open>compute_model_chessboard\<close>.
\<close>

theorem model_chessboard_grid:
  assumes "0 < rows" and "0 < cols"
  shows "length (compute_model_chessboard_2d rows cols t True) = rows * cols
     \<and> (\<forall>r < rows. \<forall>c < cols.
          compute_model_chessboard_2d rows cols t True ! (r * cols + c)
            = ((real c + 1 / 2 - real cols / 2) * t, (real r + 1 / 2 - real rows / 2) * t))
     \<and> sum_list (map fst (compute_model_chessboard_2d rows cols t True))
          / real (length (compute_model_chessboard_2d rows cols t True)) = 0
     \<and> sum_list (map snd (compute_model_chessboard_2d rows cols t True))
          / real (length (compute_model_chessboard_2d rows cols t True)) = 0
     \<and> (\<forall>r < rows. \<forall>c. Suc c < cols \<longrightarrow>
          fst (compute_model_chessboard_2d rows cols t True ! (r * cols + Suc c))
            - fst (compute_model_chessboard_2d rows cols t True ! (r * cols + c)) = t)
     \<and> (1 < cols \<longrightarrow>
          fst (compute_model_chessboard_2d rows cols t True ! 1)
            - fst (compute_model_chessboard_2d rows cols t True ! 0) = t)
     \<and> compute_model_chessboard_2d rows cols 1 True = compute_model_chessboard rows cols"
proof -
  let ?pts = "compute_model_chessboard_2d rows cols t True"
  have len: "length ?pts = rows * cols"
    by (simp add: centred_grid)
  have index: "r * cols + c < rows * cols" if "r < rows" "c < cols" for r c
  proof -
    have "r * cols + c < r * cols + cols" using that(2) by simp
    also have "\<dots> = Suc r * cols" by simp
    also have "\<dots> \<le> rows * cols" using that(1) by (intro mult_le_mono1) simp
    finally show ?thesis .
  qed
  have nth: "?pts ! (r * cols + c)
      = ((real c + 1 / 2 - real cols / 2) * t, (real r + 1 / 2 - real rows / 2) * t)"
    if "r < rows" "c < cols" for r c
    using index [OF that] that(2) by (simp add: centred_grid del: upt.simps)
  have mean_x: "sum_list (map fst ?pts) = 0"
    by (simp add: centred_grid comp_def sum_list_upt sum_grid_cols del: upt.simps)
  have mean_y: "sum_list (map snd ?pts) = 0"
    by (simp add: centred_grid comp_def sum_list_upt sum_grid_rows del: upt.simps)
  have step: "fst (?pts ! (r * cols + Suc c)) - fst (?pts ! (r * cols + c)) = t"
    if "r < rows" "Suc c < cols" for r c
  proof -
    have "c < cols" using that(2) by simp
    from nth [OF that(1) this] nth [OF that] show ?thesis
      by (simp add: algebra_simps)
  qed
  have first: "fst (?pts ! 1) - fst (?pts ! 0) = t" if "1 < cols"
    using step [of 0 0] assms(1) that by simp
  have unit: "compute_model_chessboard_2d rows cols 1 True = compute_model_chessboard rows cols"
    by (simp add: compute_model_chessboard_2d_def compute_model_chessboard_def)
  from len nth mean_x mean_y step first unit show ?thesis by simp
qed

theorem model_chessboard_grid_witness:
  "length (compute_model_chessboard_2d 6 8 30 True) = 48
   \<and> fst (compute_model_chessboard_2d 6 8 30 True ! 1)
       - fst (compute_model_chessboard_2d 6 8 30 True ! 0) = 30
   \<and> sum_list (map fst (compute_model_chessboard_2d 6 8 30 True)) / 48 = 0"
  using model_chessboard_grid [of 6 8 30] by auto

section \<open>Failure of the calibration\<close>

text \<open>
  C7, as the claim states it, fails: no \<open>CalibrationError\<close> is raised anywhere.  On an
  all-black image, for which the detector returns no corners, the constructor fails with
  the \<open>AttributeError\<close> of \<open>corners.reshape\<close>.
\<close>

theorem calibration_failure_is_attribute_error:
  "HomographyFromChessboardImage blind_cv \<lparr>fx = 500, fy = 500, cx = 320, cy = 240\<rparr>
       [[0, 0], [0, 0]] 8 6 = Inl AttributeError
   \<and> HomographyFromChessboardImage blind_cv \<lparr>fx = 500, fy = 500, cx = 320, cy = 240\<rparr>
       [[0, 0], [0, 0]] 8 6 \<noteq> Inl CalibrationError"
  by (simp add: HomographyFromChessboardImage_def blind_cv_def)

text \<open>
  C7, amended.  For every calibration image on which the corner detection returns no
  corner array, the construction raises \<open>AttributeError\<close> and produces no partial result:
  the outcome is the error alone, with no homography, rigid transform, plane normal or
  plane distance.
\<close>

theorem calibration_failure_propagates:
  assumes "snd (findChessboardCorners cv (cvtColor cv img) (cb_cols, cb_rows)) = None"
  shows "HomographyFromChessboardImage cv config img cb_rows cb_cols = Inl AttributeError"
  using assms
  by (cases "findChessboardCorners cv (cvtColor cv img) (cb_cols, cb_rows)")
     (simp add: HomographyFromChessboardImage_def)

theorem calibration_failure_propagates_witness:
  "snd (findChessboardCorners blind_cv (cvtColor blind_cv [[0, 0], [0, 0]]) (6, 8)) = None
   \<and> HomographyFromChessboardImage blind_cv \<lparr>fx = 500, fy = 500, cx = 320, cy = 240\<rparr>
       [[0, 0], [0, 0]] 8 6 = Inl AttributeError"
proof -
  have h: "snd (findChessboardCorners blind_cv (cvtColor blind_cv [[0, 0], [0, 0]]) (6, 8))
      = None"
    by (simp add: blind_cv_def)
  from calibration_failure_propagates [OF h] h show ?thesis by simp
qed

section \<open>The decomposition returns a proper rigid transform\<close>

lemma det3_mat_mul: "det3 (mat_mul a b) = det3 a * det3 b"
  by (simp add: det3_def mat_mul_def transpose3_def dot_def cross_def algebra_simps
      split: prod.splits)

lemma det3_transpose3: "det3 (transpose3 a) = det3 a"
  by (simp add: det3_def transpose3_def dot_def cross_def algebra_simps split: prod.splits)

lemma transpose3_mat_mul: "transpose3 (mat_mul a b) = mat_mul (transpose3 b) (transpose3 a)"
  by (simp add: mat_mul_def transpose3_def dot_def algebra_simps split: prod.splits)

lemma det3_eye3: "det3 eye3 = 1"
  by (simp add: det3_def eye3_def dot_def cross_def)

lemma det3_diag3: "det3 (diag3 (s1, s2, s3)) = s1 * s2 * s3"
  by (simp add: det3_def diag3_def dot_def cross_def)

lemma mat3_cases:
  obtains a b c d e f g h i where "m = ((a, b, c), (d, e, f), (g, h, i))"
  by (metis surj_pair)

lemma det3_columns:
  "det3 (mat_mul k h)
     = dot (cross (mat_vec k (fst (transpose3 h))) (mat_vec k (fst (snd (transpose3 h)))))
         (mat_vec k (snd (snd (transpose3 h))))"
proof -
  obtain k1 k2 k3 k4 k5 k6 k7 k8 k9 where k: "k = ((k1, k2, k3), (k4, k5, k6), (k7, k8, k9))"
    by (rule mat3_cases)
  obtain h1 h2 h3 h4 h5 h6 h7 h8 h9 where h: "h = ((h1, h2, h3), (h4, h5, h6), (h7, h8, h9))"
    by (rule mat3_cases)
  show ?thesis
    unfolding k h
    by (simp add: det3_def mat_mul_def mat_vec_def transpose3_def dot_def cross_def
        algebra_simps)
qed

lemma vec3_cases:
  obtains a b c where "v = (a, b, c)"
  by (metis surj_pair)

lemma dot_self_pos: "v \<noteq> (0, 0, 0) \<Longrightarrow> 0 < dot v v"
proof -
  assume nz: "v \<noteq> (0, 0, 0)"
  obtain a b c where v: "v = (a, b, c)" by (rule vec3_cases)
  with nz have "a \<noteq> 0 \<or> b \<noteq> 0 \<or> c \<noteq> 0" by simp
  then have "0 < a * a + b * b + c * c"
    by (metis add_pos_nonneg add_nonneg_pos zero_le_square not_real_square_gt_zero add_nonneg_nonneg)
  then show ?thesis by (simp add: v dot_def)
qed

lemma cross_zero_left: "cross (0, 0, 0) v = (0, 0, 0)"
  by (simp add: cross_def split: prod.splits)

lemma dot_zero_left: "dot (0, 0, 0) v = 0"
  by (simp add: dot_def split: prod.splits)

lemma cross_smult: "cross (smult l u) (smult l v) = smult (l * l) (cross u v)"
proof -
  obtain a b c where u: "u = (a, b, c)" by (rule vec3_cases)
  obtain x y z where v: "v = (x, y, z)" by (rule vec3_cases)
  show ?thesis unfolding u v by (simp add: cross_def smult_def algebra_simps)
qed

lemma smult_nonzero: "l \<noteq> 0 \<Longrightarrow> v \<noteq> (0, 0, 0) \<Longrightarrow> smult l v \<noteq> (0, 0, 0)"
proof -
  assume l: "l \<noteq> 0" and nz: "v \<noteq> (0, 0, 0)"
  obtain a b c where v: "v = (a, b, c)" by (rule vec3_cases)
  with l nz show ?thesis by (auto simp: smult_def)
qed

lemma rot_block_rigid4: "rot_block (rigid4 R T) = R"
proof -
  obtain a b c d e f g h i where R: "R = ((a, b, c), (d, e, f), (g, h, i))" by (rule mat3_cases)
  obtain x y z where T: "T = (x, y, z)" by (rule vec3_cases)
  show ?thesis unfolding R T by (simp add: rot_block_def rigid4_def)
qed

lemma bottom_row_rigid4: "bottom_row (rigid4 R T) = (0, 0, 0, 1)"
proof -
  obtain a b c d e f g h i where R: "R = ((a, b, c), (d, e, f), (g, h, i))" by (rule mat3_cases)
  obtain x y z where T: "T = (x, y, z)" by (rule vec3_cases)
  show ?thesis unfolding R T by (simp add: bottom_row_def rigid4_def)
qed

lemma assembled_rotation_det_pos:
  assumes H: "det3 H \<noteq> 0" and K: "det3 K_inv \<noteq> 0"
  shows "norm3 (mat_vec K_inv (fst (transpose3 H))) \<noteq> 0"
    and "0 < det3 (assembled_rotation H K_inv)"
proof -
  let ?a = "mat_vec K_inv (fst (transpose3 H))"
  let ?b = "mat_vec K_inv (fst (snd (transpose3 H)))"
  let ?c = "mat_vec K_inv (snd (snd (transpose3 H)))"
  have "dot (cross ?a ?b) ?c \<noteq> 0"
    using H K by (simp add: det3_columns [symmetric] det3_mat_mul)
  then have ab: "cross ?a ?b \<noteq> (0, 0, 0)"
    by (auto simp: dot_zero_left)
  then have a: "?a \<noteq> (0, 0, 0)"
    by (auto simp: cross_zero_left)
  then have "0 < dot ?a ?a" by (rule dot_self_pos)
  then have n: "0 < norm3 ?a" by (simp add: norm3_def)
  then show "norm3 ?a \<noteq> 0" by simp
  let ?L = "1 / norm3 ?a"
  have L: "?L * ?L \<noteq> 0" using n by simp
  let ?r3 = "cross (smult ?L ?a) (smult ?L ?b)"
  have "?r3 = smult (?L * ?L) (cross ?a ?b)" by (rule cross_smult)
  with smult_nonzero [OF L ab] have "?r3 \<noteq> (0, 0, 0)" by simp
  then have "0 < dot ?r3 ?r3" by (rule dot_self_pos)
  then show "0 < det3 (assembled_rotation H K_inv)"
    by (simp add: assembled_rotation_def Let_def det3_def)
qed

lemma orthonormal_det: "mat_mul (transpose3 U) U = eye3 \<Longrightarrow> det3 U * det3 U = 1"
proof -
  assume "mat_mul (transpose3 U) U = eye3"
  then have "det3 (mat_mul (transpose3 U) U) = 1" by (simp add: det3_eye3)
  then show ?thesis by (simp add: det3_mat_mul det3_transpose3)
qed

lemma svd_rotation:
  assumes svd: "is_svd R (U, S, V)" and pos: "0 < det3 R"
  shows "mat_mul (transpose3 (mat_mul U V)) (mat_mul U V) = eye3"
    and "det3 (mat_mul U V) = 1"
proof -
  obtain s1 s2 s3 where S: "S = (s1, s2, s3)" by (rule vec3_cases)
  from svd S have U: "mat_mul (transpose3 U) U = eye3"
    and V: "mat_mul (transpose3 V) V = eye3"
    and s: "0 \<le> s1" "0 \<le> s2" "0 \<le> s3"
    and R: "R = mat_mul (mat_mul U (diag3 (s1, s2, s3))) V"
    by (simp_all add: is_svd_def)
  have "mat_mul (transpose3 (mat_mul U V)) (mat_mul U V)
      = mat_mul (transpose3 V) (mat_mul (mat_mul (transpose3 U) U) V)"
    by (simp add: transpose3_mat_mul mat_mul_assoc)
  also have "\<dots> = eye3" by (simp add: U V mat_mul_eye_left)
  finally show "mat_mul (transpose3 (mat_mul U V)) (mat_mul U V) = eye3" .
  let ?u = "det3 U" and ?v = "det3 V"
  have uu: "?u * ?u = 1" using U by (rule orthonormal_det)
  have vv: "?v * ?v = 1" using V by (rule orthonormal_det)
  have detR: "det3 R = (?u * ?v) * (s1 * s2 * s3)"
    by (simp add: R det3_mat_mul det3_diag3)
  have "0 \<le> s1 * s2 * s3" using s by simp
  with pos detR have uv: "0 < ?u * ?v"
    by (metis mult_less_0_iff mult_zero_left mult_zero_right not_less_iff_gr_or_eq
        less_eq_real_def order.asym zero_less_mult_iff mult_nonneg_nonneg)
  have "(?u * ?v) * (?u * ?v) = 1"
    using uu vv by (metis mult.assoc mult.left_commute mult.right_neutral)
  then have "?u * ?v = 1 \<or> ?u * ?v = - 1"
    by (metis square_eq_1_iff power2_eq_square)
  with uv have "?u * ?v = 1" by auto
  then show "det3 (mat_mul U V) = 1" by (simp add: det3_mat_mul)
qed

text \<open>
  C5.  For every invertible homography \<open>H\<close> and every invertible \<open>K_inv\<close> (the inverse of
  the intrinsics), the decomposition returns a matrix \<open>M\<close> whose upper-left block \<open>R\<close>
  satisfies \<open>R\<^sup>T R = I\<close> and has determinant \<open>+1\<close>, and whose bottom row is \<open>(0, 0, 0, 1)\<close>;
  the singular value decomposition is taken by its contract.
\<close>

theorem decomposition_is_rigid:
  assumes "det3 H \<noteq> 0" and "det3 K_inv \<noteq> 0"
    and "is_svd (assembled_rotation H K_inv) (svd (assembled_rotation H K_inv))"
  shows "\<exists>M. decompose_homography_return_rt svd H K_inv = Inr M
     \<and> mat_mul (transpose3 (rot_block M)) (rot_block M) = eye3
     \<and> det3 (rot_block M) = 1
     \<and> bottom_row M = (0, 0, 0, 1)"
proof -
  let ?R = "assembled_rotation H K_inv"
  obtain U S V where usv: "svd ?R = (U, S, V)" by (metis prod_cases3)
  have n: "norm3 (mat_vec K_inv (fst (transpose3 H))) \<noteq> 0"
    and pos: "0 < det3 ?R"
    using assembled_rotation_det_pos [OF assms(1,2)] by simp_all
  have svd: "is_svd ?R (U, S, V)" using assms(3) usv by simp
  let ?T = "smult (1 / norm3 (mat_vec K_inv (fst (transpose3 H))))
              (mat_vec K_inv (snd (snd (transpose3 H))))"
  have "decompose_homography_return_rt svd H K_inv = Inr (rigid4 (mat_mul U V) ?T)"
    using n usv
    by (simp add: decompose_homography_return_rt_def Let_def assembled_rotation_def)
  with svd_rotation [OF svd pos] show ?thesis
    by (simp add: rot_block_rigid4 bottom_row_rigid4)
qed

theorem decomposition_is_rigid_witness:
  "decompose_homography_return_rt (\<lambda>_. (eye3, (1, 1, 1), eye3))
       ((2, 0, 5), (0, 2, 7), (0, 0, 1)) eye3
     = Inr ((1, 0, 0, 5 / 2), (0, 1, 0, 7 / 2), (0, 0, 1, 1 / 2), (0, 0, 0, 1))
   \<and> det3 (rot_block ((1, 0, 0, 5 / 2), (0, 1, 0, 7 / 2), (0, 0, 1, 1 / 2), (0, 0, 0, 1))) = 1"
proof -
  have R: "assembled_rotation ((2, 0, 5), (0, 2, 7), (0, 0, 1)) eye3 = eye3"
  proof -
    have "norm3 (mat_vec eye3 (fst (transpose3 ((2, 0, 5), (0, 2, 7), (0, 0, 1))))) = 2"
      by (simp add: transpose3_def mat_vec_def eye3_def dot_def norm3_def)
    then show ?thesis
      by (simp add: assembled_rotation_def Let_def)
         (simp add: transpose3_def mat_vec_def eye3_def dot_def smult_def cross_def)
  qed
  have run: "decompose_homography_return_rt (\<lambda>_. (eye3, (1, 1, 1), eye3))
       ((2, 0, 5), (0, 2, 7), (0, 0, 1)) eye3
     = Inr ((1, 0, 0, 5 / 2), (0, 1, 0, 7 / 2), (0, 0, 1, 1 / 2), (0, 0, 0, 1))"
  proof -
    have "norm3 (mat_vec eye3 (fst (transpose3 ((2, 0, 5), (0, 2, 7), (0, 0, 1))))) = 2"
      by (simp add: transpose3_def mat_vec_def eye3_def dot_def norm3_def)
    then show ?thesis
      by (simp add: decompose_homography_return_rt_def Let_def mat_mul_eye_right)
         (simp add: transpose3_def mat_vec_def eye3_def dot_def smult_def rigid4_def)
  qed
  have "is_svd (assembled_rotation ((2, 0, 5), (0, 2, 7), (0, 0, 1)) eye3)
          ((\<lambda>_. (eye3, (1, 1, 1), eye3)) (assembled_rotation ((2, 0, 5), (0, 2, 7), (0, 0, 1)) eye3))"
    unfolding R by (simp add: is_svd_def eye3_def transpose3_def mat_mul_def dot_def diag3_def)
  moreover have "det3 ((2, 0, 5), (0, 2, 7), (0, 0, 1)) \<noteq> 0"
    by (simp add: det3_def dot_def cross_def)
  moreover have "det3 eye3 \<noteq> 0"
    by (simp add: det3_eye3)
  ultimately obtain M
    where M: "decompose_homography_return_rt (\<lambda>_. (eye3, (1, 1, 1), eye3))
                ((2, 0, 5), (0, 2, 7), (0, 0, 1)) eye3 = Inr M"
      and d: "det3 (rot_block M) = 1"
    using decomposition_is_rigid
      [of "((2, 0, 5), (0, 2, 7), (0, 0, 1))" eye3 "\<lambda>_. (eye3, (1, 1, 1), eye3)"]
    by blast
  from M run have "M = ((1, 0, 0, 5 / 2), (0, 1, 0, 7 / 2), (0, 0, 1, 1 / 2), (0, 0, 0, 1))"
    by simp
  with d run show ?thesis by simp
qed

end
